theory Spec2Isabelle
  imports Complex_Main "HOL-Library.Log_Nat" "HOL-Library.Multiset"
begin

section \<open>Python floats\<close>

text \<open>
  The metrics of a reading are Python floats, that is IEEE 754 binary64 values. A finite
  float is modelled by the rational number it denotes; the two infinities and NaN are
  values of their own. The two zeros compare equal in Python and are one value here.
  Every arithmetic operation rounds its exact result to the nearest double, ties to even
  (\<open>round_double\<close>), and overflows to an infinity.
\<close>

datatype pyfloat = Flt rat | PosInf | NegInf | NaN

datatype py_error = ZeroDivisionError | OverflowError

text \<open>\<open>ilog2 a\<close> is the binary exponent of a positive rational: \<open>2^e \<le> a < 2^(e+1)\<close>.\<close>

definition ilog2 :: "rat \<Rightarrow> int" where
  "ilog2 a = (if 1 \<le> a then int (floorlog 2 (nat \<lfloor>a\<rfloor>)) - 1
              else - int (floorlog 2 (nat (\<lceil>1 / a\<rceil> - 1))))"

definition round_half_even :: "rat \<Rightarrow> int" where
  "round_half_even x =
     (let f = \<lfloor>x\<rfloor>; d = x - of_int f
      in if d < 1 / 2 then f
         else if 1 / 2 < d then f + 1
         else if even f then f else f + 1)"

text \<open>
  Rounding to binary64: 53 significant bits, the least exponent of a normal number is
  -1022 (below it the spacing stays \<open>2^-1074\<close>), and a rounded magnitude of \<open>2^1024\<close> or
  more is an infinity. \<open>ulp_of a\<close> is the spacing of the doubles around the magnitude \<open>a\<close>.
\<close>

definition ulp_of :: "rat \<Rightarrow> rat" where
  "ulp_of a = 2 powi (max (ilog2 a) (- 1022) - 52)"

definition round_double :: "rat \<Rightarrow> pyfloat" where
  "round_double q =
     (if q = 0 then Flt 0
      else let a = \<bar>q\<bar>;
               u = ulp_of a;
               r = of_int (round_half_even (a / u)) * u
           in if 2 ^ 1024 \<le> r then (if 0 < q then PosInf else NegInf)
              else Flt (if 0 < q then r else - r))"

fun fneg :: "pyfloat \<Rightarrow> pyfloat" where
  "fneg (Flt a) = Flt (- a)"
| "fneg PosInf = NegInf"
| "fneg NegInf = PosInf"
| "fneg NaN = NaN"

fun fadd :: "pyfloat \<Rightarrow> pyfloat \<Rightarrow> pyfloat" where
  "fadd (Flt a) (Flt b) = round_double (a + b)"
| "fadd NaN _ = NaN"
| "fadd _ NaN = NaN"
| "fadd PosInf NegInf = NaN"
| "fadd NegInf PosInf = NaN"
| "fadd PosInf _ = PosInf"
| "fadd NegInf _ = NegInf"
| "fadd _ PosInf = PosInf"
| "fadd _ NegInf = NegInf"

definition fsub :: "pyfloat \<Rightarrow> pyfloat \<Rightarrow> pyfloat" where
  "fsub x y = fadd x (fneg y)"

text \<open>Division of floats by a divisor that is not zero (Python raises on zero before).\<close>

fun fdiv :: "pyfloat \<Rightarrow> pyfloat \<Rightarrow> pyfloat" where
  "fdiv (Flt a) (Flt b) = round_double (a / b)"
| "fdiv NaN _ = NaN"
| "fdiv _ NaN = NaN"
| "fdiv (Flt a) PosInf = Flt 0"
| "fdiv (Flt a) NegInf = Flt 0"
| "fdiv PosInf (Flt b) = (if 0 < b then PosInf else NegInf)"
| "fdiv NegInf (Flt b) = (if 0 < b then NegInf else PosInf)"
| "fdiv PosInf PosInf = NaN"
| "fdiv PosInf NegInf = NaN"
| "fdiv NegInf PosInf = NaN"
| "fdiv NegInf NegInf = NaN"

text \<open>\<open>x > c\<close> and \<open>x < c\<close> against a finite constant; every comparison with NaN is false.\<close>

fun fgt :: "pyfloat \<Rightarrow> rat \<Rightarrow> bool" where
  "fgt (Flt a) c = (c < a)"
| "fgt PosInf c = True"
| "fgt NegInf c = False"
| "fgt NaN c = False"

fun flt :: "pyfloat \<Rightarrow> rat \<Rightarrow> bool" where
  "flt (Flt a) c = (a < c)"
| "flt PosInf c = False"
| "flt NegInf c = True"
| "flt NaN c = False"

fun isfinite :: "pyfloat \<Rightarrow> bool" where
  "isfinite (Flt a) = True"
| "isfinite _ = False"

text \<open>\<open>fabs(x) >= fabs(y)\<close>.\<close>

fun fabs_ge :: "pyfloat \<Rightarrow> pyfloat \<Rightarrow> bool" where
  "fabs_ge NaN _ = False"
| "fabs_ge _ NaN = False"
| "fabs_ge (Flt a) (Flt b) = (\<bar>b\<bar> \<le> \<bar>a\<bar>)"
| "fabs_ge (Flt a) _ = False"
| "fabs_ge _ _ = True"

text \<open>
  \<open>len(readings)\<close> is an int; dividing a float by it converts it to the nearest double.
  A list holds fewer than \<open>2^63\<close> items, so this conversion cannot overflow in Python.
\<close>

definition float_of_nat :: "nat \<Rightarrow> pyfloat" where
  "float_of_nat n = round_double (of_nat n)"

text \<open>\<open>x / y\<close> on floats.\<close>

definition float_truediv :: "pyfloat \<Rightarrow> pyfloat \<Rightarrow> py_error + pyfloat" where
  "float_truediv x y = (if y = Flt 0 then Inl ZeroDivisionError else Inr (fdiv x y))"

text \<open>\<open>a / b\<close> on ints: the exact quotient, rounded once.\<close>

definition int_truediv :: "int \<Rightarrow> int \<Rightarrow> py_error + pyfloat" where
  "int_truediv a b =
     (if b = 0 then Inl ZeroDivisionError
      else case round_double (of_int a / of_int b) of
             Flt q \<Rightarrow> Inr (Flt q)
           | _ \<Rightarrow> Inl OverflowError)"

text \<open>
  \<open>round(x, ndigits)\<close> on a float, for the small \<open>ndigits \<ge> 0\<close> the program uses: the exact
  value of \<open>x\<close> is rounded to \<open>ndigits\<close> decimals, ties to even, and the decimal is
  converted back to the nearest double; Python raises OverflowError when that double
  is out of range. Infinities and NaN round to themselves.
\<close>

definition py_round :: "pyfloat \<Rightarrow> nat \<Rightarrow> py_error + pyfloat" where
  "py_round x ndigits =
     (case x of
        Flt q \<Rightarrow>
          (case round_double (of_int (round_half_even (q * 10 ^ ndigits)) / 10 ^ ndigits) of
             Flt r \<Rightarrow> Inr (Flt r)
           | _ \<Rightarrow> Inl OverflowError)
      | _ \<Rightarrow> Inr x)"

text \<open>
  The built-in \<open>sum\<close> over floats starts from the int 0, adds the first item to it and then
  adds the items from left to right in double precision. CPython up to 3.11 does only
  that (\<open>Plain\<close>); from 3.12 on it also carries Neumaier's compensation term \<open>c\<close> and adds it
  at the end when it is finite and not zero (\<open>Compensated\<close>). The repository does not fix
  the interpreter, so the summation is a parameter of the model.
\<close>

datatype sum_impl = Plain | Compensated

fun sum_plain :: "pyfloat \<Rightarrow> pyfloat list \<Rightarrow> pyfloat" where
  "sum_plain f_result [] = f_result"
| "sum_plain f_result (x # xs) = sum_plain (fadd f_result x) xs"

fun sum_compensated :: "pyfloat \<Rightarrow> pyfloat \<Rightarrow> pyfloat list \<Rightarrow> pyfloat" where
  "sum_compensated f_result c [] =
     (if c \<noteq> Flt 0 \<and> isfinite c then fadd f_result c else f_result)"
| "sum_compensated f_result c (x # xs) =
     (let t = fadd f_result x;
          c' = (if fabs_ge f_result x then fadd c (fadd (fsub f_result t) x)
                else fadd c (fadd (fsub x t) f_result))
      in sum_compensated t c' xs)"

fun py_sum :: "sum_impl \<Rightarrow> pyfloat list \<Rightarrow> pyfloat" where
  "py_sum impl [] = Flt 0"
| "py_sum Plain (x # xs) = sum_plain (fadd (Flt 0) x) xs"
| "py_sum Compensated (x # xs) = sum_compensated (fadd (Flt 0) x) (Flt 0) xs"

section \<open>Readings and the risk assessment\<close>

text \<open>
  A reading is the dict built in \<open>get_latest_telemetry\<close> from a row of the table
  \<open>asset_telemetry\<close> (\<open>recorded_at\<close> is kept as the timestamp it renders); the assessment
  is the dict returned by \<open>compute_risk\<close>, its nested dict \<open>averages\<close> flattened into
  three fields.
\<close>

record reading =
  id_col :: int
  asset_id :: string
  temperature_c :: pyfloat
  vibration_rms :: pyfloat
  pressure_psi :: pyfloat
  recorded_at :: int

record assessment =
  risk_score :: pyfloat
  risk_points :: int
  risk_level :: string
  window_used :: nat
  avg_temperature_c :: pyfloat
  avg_vibration_rms :: pyfloat
  avg_pressure_psi :: pyfloat

definition ebind :: "py_error + 'a \<Rightarrow> ('a \<Rightarrow> py_error + 'b) \<Rightarrow> py_error + 'b" where
  "ebind m f = (case m of Inl e \<Rightarrow> Inl e | Inr v \<Rightarrow> f v)"

text \<open>
  \<open>compute_risk\<close> (src/api/main.py, lines 43 to 94). \<open>Inl\<close> is a raised exception,
  \<open>Inr None\<close> the returned \<open>None\<close>, \<open>Inr (Some a)\<close> the returned dict.
\<close>

definition compute_risk :: "sum_impl \<Rightarrow> reading list \<Rightarrow> py_error + assessment option" where
  "compute_risk impl readings =
     (if readings = [] then Inr None
      else
        ebind (float_truediv (py_sum impl (map temperature_c readings))
                 (float_of_nat (length readings))) (\<lambda>avg_temp.
        ebind (float_truediv (py_sum impl (map vibration_rms readings))
                 (float_of_nat (length readings))) (\<lambda>avg_vib.
        ebind (float_truediv (py_sum impl (map pressure_psi readings))
                 (float_of_nat (length readings))) (\<lambda>avg_pressure.
        let risk_points = (0 :: int);
            max_points = (6 :: int);
            risk_points =
              (if fgt avg_temp 95 then risk_points + 2
               else if fgt avg_temp 85 then risk_points + 1
               else risk_points);
            risk_points =
              (if fgt avg_vib (7 / 2) then risk_points + 2
               else if fgt avg_vib (5 / 2) then risk_points + 1
               else risk_points);
            risk_points =
              (if flt avg_pressure 30 \<or> fgt avg_pressure 60 then risk_points + 2
               else if flt avg_pressure 35 \<or> fgt avg_pressure 55 then risk_points + 1
               else risk_points)
        in
        ebind (int_truediv risk_points max_points) (\<lambda>quot.
        ebind (py_round quot 2) (\<lambda>score.
        let level =
              (if risk_points \<le> 2 then ''LOW''
               else if risk_points \<le> 4 then ''MEDIUM''
               else ''HIGH'')
        in
        ebind (py_round avg_temp 2) (\<lambda>rt.
        ebind (py_round avg_vib 2) (\<lambda>rv.
        ebind (py_round avg_pressure 2) (\<lambda>rp.
          Inr (Some \<lparr>risk_score = score,
                     risk_points = risk_points,
                     risk_level = level,
                     window_used = length readings,
                     avg_temperature_c = rt,
                     avg_vibration_rms = rv,
                     avg_pressure_psi = rp\<rparr>))))))))))"

section \<open>The retrieval endpoint\<close>

text \<open>
  \<open>get_latest_telemetry\<close> (src/api/main.py, lines 156 to 210). The store is either
  unreachable (\<open>get_conn\<close> or the query raises) or holds the rows of \<open>asset_telemetry\<close>.
  The query keeps the rows of the asset, orders them by \<open>recorded_at\<close> descending and
  returns at most \<open>limit\<close> of them; the order among equal timestamps is left open by the
  store, and the model keeps the table order there. The framework rejects an empty
  \<open>asset_id\<close> and a \<open>limit\<close> outside 1..50 before the body runs; every exception inside
  the body becomes the HTTP error 500.
\<close>

datatype store = Unreachable | Table "reading list"

datatype http_error = HTTP422 | HTTP500

record response =
  asset_id_out :: string
  window_requested :: int
  window_used_out :: nat
  count_out :: nat
  readings_out :: "reading list"
  risk_out :: "assessment option"

definition fetch_rows :: "reading list \<Rightarrow> string \<Rightarrow> nat \<Rightarrow> reading list" where
  "fetch_rows tbl aid limit =
     take limit (sort_key (\<lambda>r. - recorded_at r) (filter (\<lambda>r. asset_id r = aid) tbl))"

definition get_latest_telemetry ::
  "sum_impl \<Rightarrow> store \<Rightarrow> string \<Rightarrow> int \<Rightarrow> http_error + response" where
  "get_latest_telemetry impl db aid limit =
     (if aid = [] \<or> limit < 1 \<or> 50 < limit then Inl HTTP422
      else case db of
        Unreachable \<Rightarrow> Inl HTTP500
      | Table tbl \<Rightarrow>
          (let readings = fetch_rows tbl aid (nat limit)
           in case compute_risk impl readings of
                Inl e \<Rightarrow> Inl HTTP500
              | Inr risk \<Rightarrow>
                  Inr \<lparr>asset_id_out = aid,
                       window_requested = limit,
                       window_used_out = length readings,
                       count_out = length readings,
                       readings_out = readings,
                       risk_out = risk\<rparr>))"

section \<open>The specification's view of the evaluator\<close>

text \<open>
  The specification describes the evaluator through the unrounded mean of each metric
  and three banding functions. \<open>window_mean\<close> is the mean as \<open>compute_risk\<close> computes it
  (the float sum divided by the converted length); the bands follow the words of the
  specification, section 4.2, and are compared with the code below.
\<close>

definition window_mean :: "sum_impl \<Rightarrow> pyfloat list \<Rightarrow> pyfloat" where
  "window_mean impl xs = fdiv (py_sum impl xs) (float_of_nat (length xs))"

definition temperature_band :: "pyfloat \<Rightarrow> int" where
  "temperature_band t = (if fgt t 95 then 2 else if fgt t 85 then 1 else 0)"

definition vibration_band :: "pyfloat \<Rightarrow> int" where
  "vibration_band v = (if fgt v (7 / 2) then 2 else if fgt v (5 / 2) then 1 else 0)"

definition pressure_band :: "pyfloat \<Rightarrow> int" where
  "pressure_band p =
     (if flt p 30 \<or> fgt p 60 then 2 else if flt p 35 \<or> fgt p 55 then 1 else 0)"

definition level_of_points :: "int \<Rightarrow> string" where
  "level_of_points n = (if n \<le> 2 then ''LOW'' else if n \<le> 4 then ''MEDIUM'' else ''HIGH'')"

text \<open>
  A finite value is a double when its magnitude is \<open>k * 2^(E - 52)\<close> with a mantissa
  \<open>k\<close> of at most 53 bits and an exponent \<open>E\<close> of at least -1022, below \<open>2^1024\<close>.
\<close>

definition representable :: "rat \<Rightarrow> bool" where
  "representable r \<longleftrightarrow>
     r = 0 \<or> (\<exists>k E. 0 < k \<and> k < 2 ^ 53 \<and> - 1022 \<le> E \<and>
                \<bar>r\<bar> = of_int k * 2 powi (E - 52) \<and> \<bar>r\<bar> < 2 ^ 1024)"

fun well_formed :: "pyfloat \<Rightarrow> bool" where
  "well_formed (Flt r) = representable r"
| "well_formed _ = True"

text \<open>
  A decimal literal of the program text, such as \<open>0.17\<close>, denotes the double nearest to
  it. \<open>score_of_points n\<close> is the expression \<open>round(risk_points / max_points, 2)\<close> of
  \<open>compute_risk\<close> at \<open>risk_points = n\<close>.
\<close>

definition float_literal :: "rat \<Rightarrow> pyfloat" where
  "float_literal d = round_double d"

definition score_of_points :: "int \<Rightarrow> py_error + pyfloat" where
  "score_of_points n = ebind (int_truediv n 6) (\<lambda>quot. py_round quot 2)"

text \<open>Readings with finite metrics, for the concrete windows used below.\<close>

definition sample :: "int \<Rightarrow> rat \<Rightarrow> rat \<Rightarrow> rat \<Rightarrow> reading" where
  "sample i t v p =
     \<lparr>id_col = i, asset_id = ''aircraft-C130-017'', temperature_c = Flt t,
      vibration_rms = Flt v, pressure_psi = Flt p, recorded_at = i\<rparr>"

text \<open>
  The two scenarios of the specification, section 8: temperatures 90, 92, 94 with
  vibration 1 and pressure 45; and readings that all hold 100, 4.0 and 65.
\<close>

definition scenario_low :: "reading list" where
  "scenario_low = [sample 1 90 1 45, sample 2 92 1 45, sample 3 94 1 45]"

definition scenario_high :: "reading list" where
  "scenario_high = [sample 1 100 4 65, sample 2 100 4 65]"

text \<open>
  A table with two rows of the asset \<open>aircraft-C130-017\<close> and one row of another asset.
\<close>

definition stored_rows :: "reading list" where
  "stored_rows =
     [sample 1 90 1 45, (sample 2 70 1 45)\<lparr>asset_id := ''other''\<rparr>, sample 3 92 1 45]"

text \<open>
  Two orders of one window whose vibration values are the literals 3.29, 1.03 and 3.18
  (temperature 96, pressure 45), and two orders of one window whose temperature and
  vibration values are \<open>2^1023\<close> twice and \<open>-2^1023\<close> twice.
\<close>

definition jitter_a :: "reading list" where
  "jitter_a =
     [(sample 1 96 0 45)\<lparr>vibration_rms := float_literal (329 / 100)\<rparr>,
      (sample 2 96 0 45)\<lparr>vibration_rms := float_literal (103 / 100)\<rparr>,
      (sample 3 96 0 45)\<lparr>vibration_rms := float_literal (318 / 100)\<rparr>]"

definition jitter_b :: "reading list" where
  "jitter_b =
     [(sample 1 96 0 45)\<lparr>vibration_rms := float_literal (329 / 100)\<rparr>,
      (sample 3 96 0 45)\<lparr>vibration_rms := float_literal (318 / 100)\<rparr>,
      (sample 2 96 0 45)\<lparr>vibration_rms := float_literal (103 / 100)\<rparr>]"

definition huge :: rat where
  "huge = 2 ^ 1023"

definition swing_a :: "reading list" where
  "swing_a = [sample 1 huge huge 45, sample 2 huge huge 45,
              sample 3 (- huge) (- huge) 45, sample 4 (- huge) (- huge) 45]"

definition swing_b :: "reading list" where
  "swing_b = [sample 1 huge huge 45, sample 3 (- huge) (- huge) 45,
              sample 2 huge huge 45, sample 4 (- huge) (- huge) 45]"

text \<open>
  A sequence of floats is summed without rounding when all its values are finite
  multiples of one power of two \<open>2^-s\<close> (with \<open>s \<le> 1074\<close>, the finest spacing of the
  doubles) and their magnitudes add up to less than \<open>2^53\<close> such units: every partial sum
  is then a double.
\<close>

definition grid :: "nat \<Rightarrow> rat \<Rightarrow> bool" where
  "grid s q \<longleftrightarrow> of_int \<lfloor>q * 2 ^ s\<rfloor> = q * 2 ^ s"

fun on_grid :: "nat \<Rightarrow> pyfloat \<Rightarrow> bool" where
  "on_grid s (Flt q) = grid s q"
| "on_grid s _ = False"

fun magnitude :: "pyfloat \<Rightarrow> rat" where
  "magnitude (Flt q) = \<bar>q\<bar>"
| "magnitude _ = 0"

fun value_of :: "pyfloat \<Rightarrow> rat" where
  "value_of (Flt q) = q"
| "value_of _ = 0"

definition exactly_summable :: "nat \<Rightarrow> pyfloat list \<Rightarrow> bool" where
  "exactly_summable s xs \<longleftrightarrow>
     s \<le> 1074 \<and> list_all (on_grid s) xs \<and> sum_list (map magnitude xs) * 2 ^ s < 2 ^ 53"

text \<open>A window whose metrics are multiples of 1, 1/4 and 1/2.\<close>

definition quarters :: "reading list" where
  "quarters = [sample 1 90 (5 / 2) 45, sample 2 92 (15 / 4) (91 / 2), sample 3 97 3 44]"

section \<open>Facts about rounding\<close>

lemma ilog2_bounds_ge1:
  assumes "1 \<le> a"
  shows "2 powi (ilog2 a) \<le> a \<and> a < 2 powi (ilog2 a + 1)"
proof -
  define N where "N = nat \<lfloor>a\<rfloor>"
  have N: "0 < N" using assms by (simp add: N_def)
  define L where "L = floorlog 2 N"
  have b: "2 ^ (L - 1) \<le> N \<and> N < 2 ^ L"
    unfolding L_def using floorlog_bounds[of N 2] N by simp
  have L1: "1 \<le> L" using b N by (cases L) auto
  have e: "ilog2 a = int L - 1" using assms by (simp add: ilog2_def N_def L_def)
  have fl: "of_int \<lfloor>a\<rfloor> \<le> a \<and> a < of_int (\<lfloor>a\<rfloor> + 1)"
    by (rule floor_correct)
  have "0 \<le> \<lfloor>a\<rfloor>" using assms by simp
  then have "rat_of_nat N = of_int \<lfloor>a\<rfloor>"
    by (simp add: N_def)
  with fl have Na: "rat_of_nat N \<le> a" "a < rat_of_nat N + 1"
    by simp_all
  have "rat_of_nat (2 ^ (L - 1)) \<le> of_nat N"
    using b by (simp only: of_nat_le_iff)
  then have lo: "(2::rat) ^ (L - 1) \<le> of_nat N"
    by simp
  have "Suc N \<le> 2 ^ L" using b by simp
  then have "rat_of_nat (Suc N) \<le> of_nat (2 ^ L)"
    by (simp only: of_nat_le_iff)
  then have hi: "rat_of_nat N + 1 \<le> 2 ^ L"
    by simp
  have p1: "(2::rat) powi (int L - 1) = 2 ^ (L - 1)"
    using L1 by (simp add: power_int_def nat_diff_distrib)
  have p2: "(2::rat) powi (int L - 1 + 1) = 2 ^ L"
    by (simp add: power_int_def)
  show ?thesis
    unfolding e p1 p2 using Na lo hi by linarith
qed

lemma ilog2_bounds_lt1:
  assumes "0 < a" "a < 1"
  shows "2 powi (ilog2 a) \<le> a \<and> a < 2 powi (ilog2 a + 1)"
proof -
  define y where "y = 1 / a"
  have y1: "1 < y" using assms by (simp add: y_def)
  define M where "M = \<lceil>y\<rceil>"
  have M2: "2 \<le> M" using y1 unfolding M_def by linarith
  define N where "N = nat (M - 1)"
  have N: "0 < N" using M2 by (simp add: N_def)
  define L where "L = floorlog 2 N"
  have b: "2 ^ (L - 1) \<le> N \<and> N < 2 ^ L"
    unfolding L_def using floorlog_bounds[of N 2] N by simp
  have L1: "1 \<le> L" using b N by (cases L) auto
  have e: "ilog2 a = - int L" using assms by (simp add: ilog2_def N_def L_def M_def y_def)
  have NM: "int N = M - 1" using M2 by (simp add: N_def)
  have cl: "of_int M - 1 < y \<and> y \<le> of_int M"
    unfolding M_def by (rule ceiling_correct)
  have "rat_of_nat (2 ^ (L - 1)) \<le> of_nat N"
    using b by (simp only: of_nat_le_iff)
  then have lo: "(2::rat) ^ (L - 1) \<le> of_nat N"
    by simp
  have "Suc N \<le> 2 ^ L" using b by simp
  then have "rat_of_nat (Suc N) \<le> of_nat (2 ^ L)"
    by (simp only: of_nat_le_iff)
  then have hi: "rat_of_nat N + 1 \<le> 2 ^ L"
    by simp
  have "rat_of_nat N = of_int (int N)" by simp
  then have NM': "rat_of_nat N = of_int M - 1" unfolding NM by simp
  have ylo: "(2::rat) ^ (L - 1) < y" using lo cl NM' by linarith
  have yhi: "y \<le> 2 ^ L" using hi cl NM' by linarith
  have a_eq: "a = 1 / y" using assms by (simp add: y_def)
  have p1: "(2::rat) powi (- int L) = 1 / 2 ^ L"
    by (simp add: power_int_def field_simps)
  have p2: "(2::rat) powi (- int L + 1) = 1 / 2 ^ (L - 1)"
    using L1 by (simp add: power_int_def field_simps nat_diff_distrib) 
  have ypos: "0 < y" using y1 by simp
  have g1: "1 / 2 ^ L \<le> 1 / y"
    using yhi ypos by (simp add: frac_le)
  have g2: "1 / y < 1 / 2 ^ (L - 1)"
    using ylo by (simp add: frac_less2)
  have "2 powi (- int L) \<le> a \<and> a < 2 powi (- int L + 1)"
    unfolding p1 p2 using g1 g2 a_eq by simp
  then show ?thesis
    by (simp only: e)
qed

lemma ilog2_bounds:
  "0 < a \<Longrightarrow> 2 powi (ilog2 a) \<le> a \<and> a < 2 powi (ilog2 a + 1)"
  using ilog2_bounds_ge1 [of a] ilog2_bounds_lt1 [of a] by (cases "1 \<le> a") auto


lemma powi2_pos: "0 < (2::rat) powi e"
  by simp

lemma powi2_mono: "e \<le> e' \<Longrightarrow> (2::rat) powi e \<le> 2 powi e'"
  by (simp add: power_int_increasing)

lemma powi2_strict_mono: "e < e' \<Longrightarrow> (2::rat) powi e < 2 powi e'"
  by (simp add: power_int_strict_increasing)

lemma ilog2_unique:
  assumes "0 < a" "2 powi e \<le> a" "a < 2 powi (e + 1)"
  shows "ilog2 a = e"
proof (rule ccontr)
  assume ne: "ilog2 a \<noteq> e"
  have b: "2 powi (ilog2 a) \<le> a" "a < 2 powi (ilog2 a + 1)"
    using ilog2_bounds [OF assms(1)] by simp_all
  show False
  proof (cases "ilog2 a < e")
    case True
    then have "(2::rat) powi (ilog2 a + 1) \<le> 2 powi e"
      by (intro powi2_mono) simp
    with b assms show False by linarith
  next
    case False
    with ne have "e + 1 \<le> ilog2 a" by simp
    then have "(2::rat) powi (e + 1) \<le> 2 powi (ilog2 a)"
      by (rule powi2_mono)
    with b assms show False by linarith
  qed
qed

lemma rhe_cases:
  "round_half_even x = \<lfloor>x\<rfloor> \<or> round_half_even x = \<lfloor>x\<rfloor> + 1"
  by (simp add: round_half_even_def Let_def)

lemma rhe_of_int [simp]: "round_half_even (of_int n) = n"
  by (simp add: round_half_even_def)

lemma rhe_error: "\<bar>of_int (round_half_even x) - x\<bar> \<le> 1 / 2"
proof -
  have "of_int \<lfloor>x\<rfloor> \<le> x \<and> x < of_int (\<lfloor>x\<rfloor> + 1)"
    by (rule floor_correct)
  then show ?thesis
    by (auto simp add: round_half_even_def Let_def abs_le_iff)
qed

lemma rhe_ge: "of_int n \<le> x \<Longrightarrow> n \<le> round_half_even x"
proof -
  assume "of_int n \<le> x"
  then have "n \<le> \<lfloor>x\<rfloor>" by (simp add: le_floor_iff)
  then show ?thesis using rhe_cases [of x] by auto
qed

lemma rhe_le: "x \<le> of_int n \<Longrightarrow> round_half_even x \<le> n"
proof (cases "x = of_int n")
  case True
  then show ?thesis by simp
next
  case False
  assume "x \<le> of_int n"
  with False have "x < of_int n" by simp
  then have "\<lfloor>x\<rfloor> < n" by (simp add: floor_less_iff)
  then show ?thesis using rhe_cases [of x] by auto
qed

lemma rhe_eqI: "\<bar>x - of_int k\<bar> < 1 / 2 \<Longrightarrow> round_half_even x = k"
proof -
  assume a: "\<bar>x - of_int k\<bar> < 1 / 2"
  have e: "\<bar>of_int (round_half_even x) - x\<bar> \<le> 1 / 2" by (rule rhe_error)
  have "\<bar>rat_of_int (round_half_even x) - of_int k\<bar> < 1"
    using a e by linarith
  then have "\<bar>rat_of_int (round_half_even x - k)\<bar> < 1"
    by simp
  then have "\<bar>round_half_even x - k\<bar> < 1"
    by (metis of_int_abs of_int_less_1_iff)
  then show ?thesis by simp
qed

lemma ulp_of_pos: "0 < ulp_of a"
  by (simp add: ulp_of_def)

lemma rd_pos:
  "0 < q \<Longrightarrow> round_double q =
     (if 2 ^ 1024 \<le> of_int (round_half_even (q / ulp_of q)) * ulp_of q then PosInf
      else Flt (of_int (round_half_even (q / ulp_of q)) * ulp_of q))"
  by (simp add: round_double_def Let_def ulp_of_def)

lemma rd_neg: "round_double (- q) = fneg (round_double q)"
  by (cases "q = 0"; cases "0 < q") (auto simp add: round_double_def Let_def)

lemma powi2_less_cancel: "(2::rat) powi e < 2 powi e' \<Longrightarrow> e < e'"
  by (rule ccontr) (use powi2_mono [of e' e] in auto)

lemma powi2_add: "(2::rat) powi (m + n) = 2 powi m * 2 powi n"
  by (simp add: power_int_add)

lemma powi2_53: "(2::rat) ^ 53 * 2 powi (E - 52) = 2 powi (E + 1)"
proof -
  have h: "E + 1 = 53 + (E - 52)" by simp
  have "(2::rat) powi (E + 1) = 2 powi 53 * 2 powi (E - 52)"
    by (subst h) (rule powi2_add)
  also have "(2::rat) powi 53 = 2 ^ 53"
    by (rule power_int_numeral)
  finally show ?thesis by (rule sym)
qed

lemma below_next_binade:
  assumes "0 < q"
  shows "q < 2 ^ 53 * ulp_of q"
proof -
  have "q < 2 powi (ilog2 q + 1)"
    using ilog2_bounds [OF assms] by simp
  also have "\<dots> \<le> 2 powi (max (ilog2 q) (- 1022) + 1)"
    by (rule powi2_mono) simp
  also have "\<dots> = 2 ^ 53 * ulp_of q"
    unfolding ulp_of_def by (rule powi2_53 [symmetric])
  finally show ?thesis .
qed

lemma mantissa_bounds:
  assumes "0 < q"
  shows "0 \<le> round_half_even (q / ulp_of q) \<and> round_half_even (q / ulp_of q) \<le> 2 ^ 53"
proof
  have "0 \<le> q / ulp_of q"
    using assms ulp_of_pos [of q] by simp
  then show "0 \<le> round_half_even (q / ulp_of q)"
    using rhe_ge [of 0 "q / ulp_of q"] by simp
  have "q / ulp_of q < 2 ^ 53"
    using below_next_binade [OF assms] ulp_of_pos [of q] by (simp add: divide_less_eq)
  then have "q / ulp_of q \<le> rat_of_int (2 ^ 53)"
    by simp
  then show "round_half_even (q / ulp_of q) \<le> 2 ^ 53"
    by (rule rhe_le)
qed

lemma rd_exact:
  assumes k: "0 < k" "k < 2 ^ 53" and E: "- 1022 \<le> E"
    and r: "r = of_int k * 2 powi (E - 52)" and fin: "r < 2 ^ 1024"
  shows "round_double r = Flt r"
proof -
  have rpos: "0 < r"
    using k r by simp
  have "rat_of_int k < of_int (2 ^ 53)"
    using k by (simp only: of_int_less_iff)
  then have "rat_of_int k < 2 ^ 53"
    by simp
  then have "r < 2 ^ 53 * 2 powi (E - 52)"
    unfolding r by simp
  also have "\<dots> = 2 powi (E + 1)"
    by (rule powi2_53)
  finally have "r < 2 powi (E + 1)" .
  moreover have "2 powi (ilog2 r) \<le> r"
    using ilog2_bounds [OF rpos] by simp
  ultimately have "(2::rat) powi (ilog2 r) < 2 powi (E + 1)"
    by simp
  then have "ilog2 r < E + 1"
    by (rule powi2_less_cancel)
  then have le: "max (ilog2 r) (- 1022) \<le> E"
    using E by simp
  define E' where "E' = max (ilog2 r) (- 1022)"
  define d where "d = nat (E - E')"
  define u' where "u' = ulp_of r"
  have u: "u' = 2 powi (E' - 52)"
    by (simp add: u'_def ulp_of_def E'_def)
  have u'pos: "0 < u'"
    by (simp add: u)
  have "(2::rat) powi (E - 52) = 2 powi (int d + (E' - 52))"
    using le by (simp add: d_def E'_def)
  also have "\<dots> = 2 ^ d * 2 powi (E' - 52)"
    by (simp add: powi2_add)
  finally have split: "(2::rat) powi (E - 52) = 2 ^ d * u'"
    by (simp add: u)
  have r2: "r = of_int (k * 2 ^ d) * u'"
    by (simp add: r split)
  then have quot: "r / u' = of_int (k * 2 ^ d)"
    using u'pos by simp
  have "of_int (round_half_even (r / u')) * u' = r"
    by (simp only: quot rhe_of_int r2 [symmetric])
  then have "of_int (round_half_even (r / ulp_of r)) * ulp_of r = r"
    by (simp only: u'_def)
  then show ?thesis
    using rd_pos [OF rpos] fin by simp
qed

lemma representable_minus: "representable (- r) = representable r"
  by (simp add: representable_def)

lemma rd_pos_representable:
  assumes "0 < q" "round_double q = Flt r"
  shows "representable r"
proof -
  define k where "k = round_half_even (q / ulp_of q)"
  define E where "E = max (ilog2 q) (- 1022)"
  have u: "ulp_of q = 2 powi (E - 52)"
    by (simp add: ulp_of_def E_def)
  have kb: "0 \<le> k" "k \<le> 2 ^ 53"
    using mantissa_bounds [OF assms(1)] by (simp_all add: k_def)
  have rd: "round_double q = (if 2 ^ 1024 \<le> of_int k * ulp_of q then PosInf
      else Flt (of_int k * ulp_of q))"
    unfolding k_def by (rule rd_pos [OF assms(1)])
  have fin: "of_int k * ulp_of q < 2 ^ 1024"
    using rd assms(2) by (auto split: if_splits)
  have r: "r = of_int k * 2 powi (E - 52)"
    using rd assms(2) fin by (simp add: u)
  have rnn: "0 \<le> r"
    unfolding r using kb by simp
  have E: "- 1022 \<le> E" by (simp add: E_def)
  consider "k = 0" | "0 < k" "k < 2 ^ 53" | "k = 2 ^ 53"
    using kb by linarith
  then show ?thesis
  proof cases
    case 1
    then show ?thesis by (simp add: representable_def r)
  next
    case 2
    have "\<bar>r\<bar> = of_int k * 2 powi (E - 52) \<and> \<bar>r\<bar> < 2 ^ 1024"
      using rnn r fin u by simp
    with 2 E show ?thesis
      unfolding representable_def by blast
  next
    case 3
    have "(2::rat) ^ 53 * 2 powi (E - 52) = 2 ^ 52 * 2 powi (E + 1 - 52)"
    proof -
      have "(2::rat) ^ 53 * 2 powi (E - 52) = 2 ^ 52 * (2 powi 1 * 2 powi (E - 52))"
        by simp
      also have "2 powi 1 * 2 powi (E - 52) = (2::rat) powi (1 + (E - 52))"
        by (rule powi2_add [symmetric])
      also have "1 + (E - 52) = E + 1 - 52" by simp
      finally show ?thesis .
    qed
    then have "r = of_int (2 ^ 52) * 2 powi (E + 1 - 52)"
      using r 3 by simp
    then have "\<bar>r\<bar> = of_int (2 ^ 52) * 2 powi (E + 1 - 52) \<and> \<bar>r\<bar> < 2 ^ 1024"
      using rnn r fin u by simp
    moreover have "(0::int) < 2 ^ 52 \<and> (2::int) ^ 52 < 2 ^ 53 \<and> - 1022 \<le> E + 1"
      using E by simp
    ultimately show ?thesis
      unfolding representable_def by blast
  qed
qed

lemma rd_representable:
  assumes "round_double q = Flt r"
  shows "representable r"
proof -
  consider "q = 0" | "0 < q" | "q < 0" by linarith
  then show ?thesis
  proof cases
    case 1
    with assms show ?thesis by (simp add: round_double_def representable_def)
  next
    case 2
    then show ?thesis using assms by (rule rd_pos_representable)
  next
    case 3
    have "round_double (- q) = Flt (- r)"
      using assms by (simp add: rd_neg)
    with 3 have "representable (- r)"
      by (intro rd_pos_representable [of "- q"]) simp_all
    then show ?thesis by (simp add: representable_minus)
  qed
qed

lemma rd_fix:
  assumes "representable r"
  shows "round_double r = Flt r"
proof (cases "r = 0")
  case True
  then show ?thesis by (simp add: round_double_def)
next
  case False
  with assms obtain k E where kE: "0 < k" "k < 2 ^ 53" "- 1022 \<le> E"
    "\<bar>r\<bar> = of_int k * 2 powi (E - 52)" "\<bar>r\<bar> < 2 ^ 1024"
    unfolding representable_def by blast
  then have a: "round_double \<bar>r\<bar> = Flt \<bar>r\<bar>"
    by (intro rd_exact [of k E])
  show ?thesis
  proof (cases "0 < r")
    case True
    with a show ?thesis by simp
  next
    case False
    then have "\<bar>r\<bar> = - r" by simp
    with a have "round_double (- r) = Flt (- r)" by simp
    then have "fneg (round_double r) = Flt (- r)" by (simp add: rd_neg)
    then show ?thesis by (cases "round_double r") simp_all
  qed
qed

lemma rd_finite:
  assumes "\<bar>q\<bar> < 2 ^ 1023"
  shows "\<exists>r. round_double q = Flt r"
proof (cases "q = 0")
  case True
  then show ?thesis by (simp add: round_double_def)
next
  case False
  define a where "a = \<bar>q\<bar>"
  have apos: "0 < a" using False by (simp add: a_def)
  define E where "E = max (ilog2 a) (- 1022)"
  have "2 powi (ilog2 a) \<le> a"
    using ilog2_bounds [OF apos] by simp
  also have "a < 2 powi 1023"
    using assms by (simp add: a_def)
  finally have "ilog2 a < 1023"
    by (rule powi2_less_cancel)
  then have E: "E + 1 \<le> 1023"
    by (simp add: E_def)
  have u: "ulp_of a = 2 powi (E - 52)"
    by (simp add: ulp_of_def E_def)
  have "rat_of_int (round_half_even (a / ulp_of a)) \<le> of_int (2 ^ 53)"
    using mantissa_bounds [OF apos] by (simp only: of_int_le_iff)
  then have "of_int (round_half_even (a / ulp_of a)) * ulp_of a \<le> 2 ^ 53 * ulp_of a"
    using ulp_of_pos [of a] by simp
  also have "\<dots> = 2 powi (E + 1)"
    unfolding u by (rule powi2_53)
  also have "\<dots> \<le> 2 powi 1023"
    using E by (rule powi2_mono)
  also have "\<dots> < 2 ^ 1024"
    by simp
  finally have "round_double a = Flt (of_int (round_half_even (a / ulp_of a)) * ulp_of a)"
    using rd_pos [OF apos] by simp
  then have fin: "\<exists>r. round_double a = Flt r" by blast
  show ?thesis
  proof (cases "0 < q")
    case True
    with fin show ?thesis by (simp add: a_def)
  next
    case False
    then have "a = - q" by (simp add: a_def)
    with fin obtain r where "fneg (round_double q) = Flt r"
      by (auto simp add: rd_neg)
    then show ?thesis by (cases "round_double q") simp_all
  qed
qed

lemma rd_nonzero:
  assumes "1 \<le> q"
  shows "round_double q \<noteq> Flt 0"
proof -
  have qpos: "0 < q" using assms by simp
  have "(2::rat) powi 0 \<le> q" using assms by simp
  also have "q < 2 powi (ilog2 q + 1)"
    using ilog2_bounds [OF qpos] by simp
  finally have "0 < ilog2 q + 1"
    by (rule powi2_less_cancel)
  then have E: "max (ilog2 q) (- 1022) = ilog2 q"
    by simp
  have u: "ulp_of q = 2 powi (ilog2 q - 52)"
    by (simp add: ulp_of_def E)
  have "2 ^ 52 * ulp_of q = 2 powi 52 * 2 powi (ilog2 q - 52)"
    by (simp add: u)
  also have "\<dots> = 2 powi (52 + (ilog2 q - 52))"
    by (rule powi2_add [symmetric])
  also have "\<dots> = 2 powi (ilog2 q)"
    by simp
  also have "\<dots> \<le> q"
    using ilog2_bounds [OF qpos] by simp
  finally have "rat_of_int (2 ^ 52) \<le> q / ulp_of q"
    using ulp_of_pos [of q] by (simp add: le_divide_eq)
  then have "2 ^ 52 \<le> round_half_even (q / ulp_of q)"
    by (rule rhe_ge)
  then have "0 < rat_of_int (round_half_even (q / ulp_of q))"
    by simp
  then have "0 < of_int (round_half_even (q / ulp_of q)) * ulp_of q"
    using ulp_of_pos [of q] by simp
  then show ?thesis
    using rd_pos [OF qpos] by auto
qed

lemma representable_large_int:
  assumes "representable r" "2 ^ 53 \<le> \<bar>r\<bar>"
  shows "\<exists>n. r = of_int n"
proof -
  have "r \<noteq> 0" using assms(2) by auto
  with assms obtain k E where kE: "0 < k" "k < 2 ^ 53"
    "\<bar>r\<bar> = of_int k * 2 powi (E - 52)"
    unfolding representable_def by blast
  have "rat_of_int k < of_int (2 ^ 53)"
    using kE(2) by (simp only: of_int_less_iff)
  then have k53: "rat_of_int k < 2 ^ 53" by simp
  have "0 \<le> E - 52"
  proof (rule ccontr)
    assume "\<not> 0 \<le> E - 52"
    then have "(2::rat) powi (E - 52) \<le> 2 powi 0"
      by (intro powi2_mono) simp
    then have "(2::rat) powi (E - 52) \<le> 1" by simp
    then have "of_int k * 2 powi (E - 52) \<le> rat_of_int k * 1"
      using kE(1) by (intro mult_left_mono) simp_all
    with kE(3) k53 assms(2) show False by simp
  qed
  then have "(2::rat) powi (E - 52) = 2 ^ nat (E - 52)"
    by (simp add: power_int_def)
  then have a: "\<bar>r\<bar> = of_int (k * 2 ^ nat (E - 52))"
    using kE(3) by simp
  show ?thesis
  proof (cases "0 \<le> r")
    case True
    with a have "r = of_int (k * 2 ^ nat (E - 52))" by simp
    then show ?thesis ..
  next
    case False
    with a have "r = of_int (- (k * 2 ^ nat (E - 52)))" by simp
    then show ?thesis ..
  qed
qed

lemma py_round_representable:
  assumes "representable r"
  shows "\<exists>r'. py_round (Flt r) n = Inr (Flt r')"
proof -
  define s where "s = rat_of_int (round_half_even (r * 10 ^ n)) / 10 ^ n"
  have "\<exists>r'. round_double s = Flt r'"
  proof (cases "2 ^ 53 \<le> \<bar>r\<bar>")
    case True
    then obtain m where m: "r = of_int m"
      using representable_large_int [OF assms] by blast
    have "r * 10 ^ n = of_int (m * 10 ^ n)"
      by (simp add: m)
    then have "round_half_even (r * 10 ^ n) = m * 10 ^ n"
      by (simp only: rhe_of_int)
    then have "s = r"
      by (simp add: s_def m)
    then show ?thesis
      using rd_fix [OF assms] by simp
  next
    case False
    have p: "(1::rat) \<le> 10 ^ n" by simp
    have "\<bar>rat_of_int (round_half_even (r * 10 ^ n)) - r * 10 ^ n\<bar> \<le> 1 / 2"
      by (rule rhe_error)
    then have "\<bar>s * 10 ^ n - r * 10 ^ n\<bar> \<le> 1 / 2"
      by (simp add: s_def)
    then have "\<bar>(s - r) * 10 ^ n\<bar> \<le> 1 / 2"
      by (simp add: algebra_simps)
    then have "\<bar>s - r\<bar> * 10 ^ n \<le> 1 / 2"
      by (simp add: abs_mult)
    moreover have "\<bar>s - r\<bar> * 1 \<le> \<bar>s - r\<bar> * 10 ^ n"
      using p by (intro mult_left_mono) simp_all
    ultimately have "\<bar>s - r\<bar> \<le> 1 / 2" by simp
    with False have "\<bar>s\<bar> < 2 ^ 53 + 1" by linarith
    also have "\<dots> < (2::rat) ^ 1023" by simp
    finally show ?thesis by (rule rd_finite)
  qed
  then show ?thesis
    by (auto simp add: py_round_def s_def)
qed

lemma py_round_total:
  "well_formed x \<Longrightarrow> \<exists>y. py_round x n = Inr y"
  using py_round_representable [of _ n]
  by (cases x) (auto simp add: py_round_def)

lemma well_formed_round_double: "well_formed (round_double q)"
  using rd_representable [of q] by (cases "round_double q") simp_all

lemma well_formed_fdiv: "well_formed (fdiv x y)"
  by (cases x; cases y) (simp_all add: well_formed_round_double representable_def)

lemma int_truediv_six:
  assumes "0 \<le> k" "k \<le> 6"
  shows "\<exists>r. int_truediv k 6 = Inr (Flt r) \<and> representable r"
proof -
  have "\<bar>rat_of_int k / 6\<bar> \<le> 1"
    using assms by simp
  also have "(1::rat) < 2 ^ 1023" by simp
  finally obtain r where r: "round_double (rat_of_int k / 6) = Flt r"
    using rd_finite by blast
  then have "representable r" by (rule rd_representable)
  with r show ?thesis by (simp add: int_truediv_def)
qed

section \<open>The result on a window that is not empty\<close>

lemma round_double_int:
  assumes "\<bar>n\<bar> < 2 ^ 53"
  shows "round_double (of_int n) = Flt (of_int n)"
proof -
  have "representable (of_int n)"
  proof (cases "n = 0")
    case True
    then show ?thesis by (simp add: representable_def)
  next
    case False
    have "\<bar>rat_of_int n\<bar> = of_int \<bar>n\<bar> * 2 powi (52 - 52)"
      by simp
    moreover have "rat_of_int \<bar>n\<bar> < of_int (2 ^ 53)"
      using assms by (simp only: of_int_less_iff)
    then have "\<bar>rat_of_int n\<bar> < 2 ^ 1024"
      by simp
    moreover have "0 < \<bar>n\<bar>" "- 1022 \<le> (52::int)"
      using False by simp_all
    ultimately show ?thesis
      unfolding representable_def using assms by blast
  qed
  then show ?thesis by (rule rd_fix)
qed

lemma float_of_nat_nonzero: "0 < n \<Longrightarrow> float_of_nat n \<noteq> Flt 0"
  unfolding float_of_nat_def by (rule rd_nonzero) simp

lemma band_bounds:
  "0 \<le> temperature_band t \<and> temperature_band t \<le> 2"
  "0 \<le> vibration_band v \<and> vibration_band v \<le> 2"
  "0 \<le> pressure_band p \<and> pressure_band p \<le> 2"
  by (simp_all add: temperature_band_def vibration_band_def pressure_band_def)

lemma float_truediv_mean:
  "xs \<noteq> [] \<Longrightarrow>
     float_truediv (py_sum impl xs) (float_of_nat (length xs)) = Inr (window_mean impl xs)"
  using float_of_nat_nonzero [of "length xs"]
  by (simp add: float_truediv_def window_mean_def)

lemma well_formed_window_mean: "well_formed (window_mean impl xs)"
  unfolding window_mean_def by (rule well_formed_fdiv)

lemma ebind_Inr: "ebind (Inr x) f = f x"
  by (simp add: ebind_def)

text \<open>The shape of the result on a window that is not empty.\<close>

lemma compute_risk_nonempty:
  fixes impl :: sum_impl and rs :: "reading list"
  assumes "rs \<noteq> []"
  defines "t \<equiv> window_mean impl (map temperature_c rs)"
    and "v \<equiv> window_mean impl (map vibration_rms rs)"
    and "p \<equiv> window_mean impl (map pressure_psi rs)"
  defines "n \<equiv> temperature_band t + vibration_band v + pressure_band p"
  shows "\<exists>quot score rt rv rp.
           int_truediv n 6 = Inr quot \<and> py_round quot 2 = Inr score \<and>
           py_round t 2 = Inr rt \<and> py_round v 2 = Inr rv \<and> py_round p 2 = Inr rp \<and>
           compute_risk impl rs =
             Inr (Some \<lparr>risk_score = score, risk_points = n,
                        risk_level = level_of_points n, window_used = length rs,
                        avg_temperature_c = rt, avg_vibration_rms = rv,
                        avg_pressure_psi = rp\<rparr>)"
proof -
  have n: "0 \<le> n" "n \<le> 6"
    using band_bounds(1) [of t] band_bounds(2) [of v] band_bounds(3) [of p]
    by (simp_all add: n_def)
  then obtain r where quot: "int_truediv n 6 = Inr (Flt r)" and "representable r"
    using int_truediv_six by blast
  then have "well_formed (Flt r)" by simp
  then obtain score where score: "py_round (Flt r) 2 = Inr score"
    using py_round_total by blast
  obtain rt where rt: "py_round t 2 = Inr rt"
    unfolding t_def using py_round_total [OF well_formed_window_mean] by blast
  obtain rv where rv: "py_round v 2 = Inr rv"
    unfolding v_def using py_round_total [OF well_formed_window_mean] by blast
  obtain rp where rp: "py_round p 2 = Inr rp"
    unfolding p_def using py_round_total [OF well_formed_window_mean] by blast
  have mt: "float_truediv (py_sum impl (map temperature_c rs)) (float_of_nat (length rs)) = Inr t"
    unfolding t_def using float_truediv_mean [of "map temperature_c rs" impl] assms(1) by simp
  have mv: "float_truediv (py_sum impl (map vibration_rms rs)) (float_of_nat (length rs)) = Inr v"
    unfolding v_def using float_truediv_mean [of "map vibration_rms rs" impl] assms(1) by simp
  have mp: "float_truediv (py_sum impl (map pressure_psi rs)) (float_of_nat (length rs)) = Inr p"
    unfolding p_def using float_truediv_mean [of "map pressure_psi rs" impl] assms(1) by simp
  have pts: "(let risk_points = (0 :: int);
            max_points = (6 :: int);
            risk_points =
              (if fgt t 95 then risk_points + 2
               else if fgt t 85 then risk_points + 1
               else risk_points);
            risk_points =
              (if fgt v (7 / 2) then risk_points + 2
               else if fgt v (5 / 2) then risk_points + 1
               else risk_points);
            risk_points =
              (if flt p 30 \<or> fgt p 60 then risk_points + 2
               else if flt p 35 \<or> fgt p 55 then risk_points + 1
               else risk_points)
        in f risk_points max_points) = f n 6" for f :: "int \<Rightarrow> int \<Rightarrow> 'x"
    by (simp add: n_def temperature_band_def vibration_band_def pressure_band_def Let_def)
  have "compute_risk impl rs =
             Inr (Some \<lparr>risk_score = score, risk_points = n,
                        risk_level = level_of_points n, window_used = length rs,
                        avg_temperature_c = rt, avg_vibration_rms = rv,
                        avg_pressure_psi = rp\<rparr>)"
    unfolding compute_risk_def mt mv mp ebind_Inr pts
    using assms(1) by (simp add: ebind_Inr quot score rt rv rp level_of_points_def)
  with quot score rt rv rp show ?thesis by blast
qed

section \<open>Evaluating the float operations on concrete values\<close>

named_theorems float_eval

lemma round_double_zero [float_eval]: "round_double 0 = Flt 0"
  by (simp add: round_double_def)

lemma round_double_one [float_eval]: "round_double 1 = Flt 1"
  using round_double_int [of 1] by simp

lemma round_double_numeral [float_eval]:
  "(numeral w :: int) < 2 ^ 53 \<Longrightarrow> round_double (numeral w) = Flt (numeral w)"
  using round_double_int [of "numeral w"] by simp

lemma round_double_minus [float_eval]: "round_double (- q) = fneg (round_double q)"
  by (rule rd_neg)

lemma float_of_nat_small [float_eval]:
  "n < 2 ^ 53 \<Longrightarrow> float_of_nat n = Flt (of_nat n)"
proof -
  assume "n < 2 ^ 53"
  then have "\<bar>int n\<bar> < 2 ^ 53" by simp
  then have "round_double (of_int (int n)) = Flt (of_int (int n))"
    by (rule round_double_int)
  then show ?thesis by (simp add: float_of_nat_def)
qed

lemmas [float_eval] = window_mean_def fsub_def Let_def

lemma round_double_eval:
  assumes "0 < q" "2 powi e \<le> q" "q < 2 powi (e + 1)" "- 1022 \<le> e"
    and "\<bar>q / 2 powi (e - 52) - of_int k\<bar> < 1 / 2"
    and "rat_of_int k * 2 powi (e - 52) < 2 ^ 1024"
  shows "round_double q = Flt (of_int k * 2 powi (e - 52))"
proof -
  have "ilog2 q = e"
    using assms(1-3) by (rule ilog2_unique)
  then have u: "ulp_of q = 2 powi (e - 52)"
    using assms(4) by (simp add: ulp_of_def)
  have "round_half_even (q / ulp_of q) = k"
    unfolding u using assms(5) by (rule rhe_eqI)
  then show ?thesis
    using rd_pos [OF assms(1)] assms(6) u by simp
qed


lemma py_round_eval:
  assumes "\<bar>q * 10 ^ n - of_int k\<bar> < 1 / 2"
    and "round_double (of_int k / 10 ^ n) = Flt r"
  shows "py_round (Flt q) n = Inr (Flt r)"
proof -
  have "round_half_even (q * 10 ^ n) = k"
    using assms(1) by (rule rhe_eqI)
  then show ?thesis
    using assms(2) by (simp add: py_round_def)
qed

lemma quotient_1_6: "round_double (1 / 6) = Flt (6004799503160661 / 36028797018963968)"
  using round_double_eval [of "1 / 6" "- 3" 6004799503160661] by simp

lemma quotient_2_6: "round_double (2 / 6) = Flt (6004799503160661 / 18014398509481984)"
  using round_double_eval [of "2 / 6" "- 2" 6004799503160661] by simp

lemma quotient_3_6: "round_double (3 / 6) = Flt (1 / 2)"
  using round_double_eval [of "3 / 6" "- 1" 4503599627370496] by simp

lemma quotient_4_6: "round_double (4 / 6) = Flt (6004799503160661 / 9007199254740992)"
  using round_double_eval [of "4 / 6" "- 1" 6004799503160661] by simp

lemma quotient_5_6: "round_double (5 / 6) = Flt (7505999378950827 / 9007199254740992)"
  using round_double_eval [of "5 / 6" "- 1" 7505999378950827] by simp

lemma literal_0_17: "float_literal (17 / 100) = Flt (6124895493223875 / 36028797018963968)"
  unfolding float_literal_def
  using round_double_eval [of "17 / 100" "- 3" 6124895493223875] by simp

lemma literal_0_33: "float_literal (33 / 100) = Flt (5944751508129055 / 18014398509481984)"
  unfolding float_literal_def
  using round_double_eval [of "33 / 100" "- 2" 5944751508129055] by simp

lemma literal_0_67: "float_literal (67 / 100) = Flt (6034823500676465 / 9007199254740992)"
  unfolding float_literal_def
  using round_double_eval [of "67 / 100" "- 1" 6034823500676465] by simp

lemma literal_0_83: "float_literal (83 / 100) = Flt (7475975381435023 / 9007199254740992)"
  unfolding float_literal_def
  using round_double_eval [of "83 / 100" "- 1" 7475975381435023] by simp

lemma score_0: "score_of_points 0 = Inr (Flt 0)"
proof -
  have "py_round (Flt 0) 2 = Inr (Flt 0)"
    by (rule py_round_eval [of _ _ 0]) (simp_all add: round_double_zero)
  then show ?thesis
    by (simp add: score_of_points_def int_truediv_def ebind_Inr round_double_zero)
qed

lemma score_1: "score_of_points 1 = Inr (float_literal (17 / 100))"
proof -
  have "py_round (Flt (6004799503160661 / 36028797018963968)) 2 =
      Inr (Flt (6124895493223875 / 36028797018963968))"
    by (rule py_round_eval [of _ _ 17]) (simp_all add: literal_0_17 [unfolded float_literal_def])
  then show ?thesis
    using quotient_1_6 by (simp add: score_of_points_def int_truediv_def ebind_Inr literal_0_17)
qed

lemma score_2: "score_of_points 2 = Inr (float_literal (33 / 100))"
proof -
  have "py_round (Flt (6004799503160661 / 18014398509481984)) 2 =
      Inr (Flt (5944751508129055 / 18014398509481984))"
    by (rule py_round_eval [of _ _ 33]) (simp_all add: literal_0_33 [unfolded float_literal_def])
  then show ?thesis
    using quotient_2_6 by (simp add: score_of_points_def int_truediv_def ebind_Inr literal_0_33)
qed

lemma score_3: "score_of_points 3 = Inr (Flt (1 / 2))"
proof -
  have "py_round (Flt (1 / 2)) 2 = Inr (Flt (1 / 2))"
    using quotient_3_6 by (intro py_round_eval [of _ _ 50]) simp_all
  then show ?thesis
    using quotient_3_6 by (simp add: score_of_points_def int_truediv_def ebind_Inr)
qed

lemma score_4: "score_of_points 4 = Inr (float_literal (67 / 100))"
proof -
  have "py_round (Flt (6004799503160661 / 9007199254740992)) 2 =
      Inr (Flt (6034823500676465 / 9007199254740992))"
    by (rule py_round_eval [of _ _ 67]) (simp_all add: literal_0_67 [unfolded float_literal_def])
  then show ?thesis
    using quotient_4_6 by (simp add: score_of_points_def int_truediv_def ebind_Inr literal_0_67)
qed

lemma score_5: "score_of_points 5 = Inr (float_literal (83 / 100))"
proof -
  have "py_round (Flt (7505999378950827 / 9007199254740992)) 2 =
      Inr (Flt (7475975381435023 / 9007199254740992))"
    by (rule py_round_eval [of _ _ 83]) (simp_all add: literal_0_83 [unfolded float_literal_def])
  then show ?thesis
    using quotient_5_6 by (simp add: score_of_points_def int_truediv_def ebind_Inr literal_0_83)
qed

lemma score_6: "score_of_points 6 = Inr (Flt 1)"
proof -
  have "py_round (Flt 1) 2 = Inr (Flt 1)"
    by (rule py_round_eval [of _ _ 100]) (simp_all add: round_double_one)
  then show ?thesis
    by (simp add: score_of_points_def int_truediv_def ebind_Inr round_double_one)
qed

lemmas score_table = score_0 score_1 score_2 score_3 score_4 score_5 score_6

lemma compute_risk_eval:
  fixes impl :: sum_impl and rs :: "reading list"
  assumes "rs \<noteq> []"
    and "window_mean impl (map temperature_c rs) = t"
    and "window_mean impl (map vibration_rms rs) = v"
    and "window_mean impl (map pressure_psi rs) = p"
    and "score_of_points (temperature_band t + vibration_band v + pressure_band p) = Inr score"
    and "py_round t 2 = Inr rt" "py_round v 2 = Inr rv" "py_round p 2 = Inr rp"
  shows "compute_risk impl rs =
           Inr (Some \<lparr>risk_score = score,
                      risk_points = temperature_band t + vibration_band v + pressure_band p,
                      risk_level =
                        level_of_points (temperature_band t + vibration_band v + pressure_band p),
                      window_used = length rs,
                      avg_temperature_c = rt, avg_vibration_rms = rv,
                      avg_pressure_psi = rp\<rparr>)"
proof -
  obtain quot score' rt' rv' rp' where
    "int_truediv (temperature_band t + vibration_band v + pressure_band p) 6 = Inr quot"
    "py_round quot 2 = Inr score'"
    "py_round t 2 = Inr rt'" "py_round v 2 = Inr rv'" "py_round p 2 = Inr rp'"
    and r: "compute_risk impl rs =
      Inr (Some \<lparr>risk_score = score',
                 risk_points = temperature_band t + vibration_band v + pressure_band p,
                 risk_level =
                   level_of_points (temperature_band t + vibration_band v + pressure_band p),
                 window_used = length rs,
                 avg_temperature_c = rt', avg_vibration_rms = rv',
                 avg_pressure_psi = rp'\<rparr>)"
    using compute_risk_nonempty [OF assms(1), of impl] unfolding assms(2-4) by blast
  then have "score' = score" "rt' = rt" "rv' = rv" "rp' = rp"
    using assms(5-8) by (simp_all add: score_of_points_def ebind_Inr)
  with r show ?thesis by simp
qed

lemma py_round_int:
  assumes "\<bar>n\<bar> < 2 ^ 53"
  shows "py_round (Flt (of_int n)) k = Inr (Flt (of_int n))"
proof (rule py_round_eval [of _ _ "n * 10 ^ k"])
  show "\<bar>rat_of_int n * 10 ^ k - rat_of_int (n * 10 ^ k)\<bar> < 1 / 2"
    by simp
  show "round_double (rat_of_int (n * 10 ^ k) / 10 ^ k) = Flt (rat_of_int n)"
    using round_double_int [OF assms] by simp
qed

lemma py_round_numeral [float_eval]:
  "(numeral w :: int) < 2 ^ 53 \<Longrightarrow> py_round (Flt (numeral w)) k = Inr (Flt (numeral w))"
  using py_round_int [of "numeral w" k] by simp

lemma py_round_one [float_eval]: "py_round (Flt 1) k = Inr (Flt 1)"
  using py_round_int [of 1 k] by simp

lemma py_round_zero [float_eval]: "py_round (Flt 0) k = Inr (Flt 0)"
  using py_round_int [of 0 k] by simp

lemmas band_defs = temperature_band_def vibration_band_def pressure_band_def level_of_points_def

lemma scenario_low_result:
  "compute_risk impl scenario_low =
     Inr (Some \<lparr>risk_score = float_literal (17 / 100), risk_points = 1, risk_level = ''LOW'',
                window_used = 3, avg_temperature_c = Flt 92, avg_vibration_rms = Flt 1,
                avg_pressure_psi = Flt 45\<rparr>)"
proof -
  have ne: "scenario_low \<noteq> []"
    by (simp add: scenario_low_def)
  have t: "window_mean impl (map temperature_c scenario_low) = Flt 92"
    by (cases impl) (simp_all add: scenario_low_def sample_def float_eval)
  have v: "window_mean impl (map vibration_rms scenario_low) = Flt 1"
    by (cases impl) (simp_all add: scenario_low_def sample_def float_eval)
  have p: "window_mean impl (map pressure_psi scenario_low) = Flt 45"
    by (cases impl) (simp_all add: scenario_low_def sample_def float_eval)
  have s: "score_of_points (temperature_band (Flt 92) + vibration_band (Flt 1) +
      pressure_band (Flt 45)) = Inr (float_literal (17 / 100))"
    by (simp add: band_defs score_1)
  show ?thesis
    using compute_risk_eval [OF ne t v p s, of "Flt 92" "Flt 1" "Flt 45"]
    by (simp add: band_defs float_eval scenario_low_def)
qed

lemma scenario_high_result:
  "compute_risk impl scenario_high =
     Inr (Some \<lparr>risk_score = Flt 1, risk_points = 6, risk_level = ''HIGH'',
                window_used = 2, avg_temperature_c = Flt 100, avg_vibration_rms = Flt 4,
                avg_pressure_psi = Flt 65\<rparr>)"
proof -
  have ne: "scenario_high \<noteq> []"
    by (simp add: scenario_high_def)
  have t: "window_mean impl (map temperature_c scenario_high) = Flt 100"
    by (cases impl) (simp_all add: scenario_high_def sample_def float_eval)
  have v: "window_mean impl (map vibration_rms scenario_high) = Flt 4"
    by (cases impl) (simp_all add: scenario_high_def sample_def float_eval)
  have p: "window_mean impl (map pressure_psi scenario_high) = Flt 65"
    by (cases impl) (simp_all add: scenario_high_def sample_def float_eval)
  have s: "score_of_points (temperature_band (Flt 100) + vibration_band (Flt 4) +
      pressure_band (Flt 65)) = Inr (Flt 1)"
    by (simp add: band_defs score_6)
  show ?thesis
    using compute_risk_eval [OF ne t v p s, of "Flt 100" "Flt 4" "Flt 65"]
    by (simp add: band_defs float_eval scenario_high_def)
qed

lemma round_double_dyadic:
  assumes "\<bar>n\<bar> < 2 ^ 53" "s \<le> 1074"
  shows "round_double (of_int n / 2 ^ s) = Flt (of_int n / 2 ^ s)"
proof -
  have "representable (of_int n / 2 ^ s)"
  proof (cases "n = 0")
    case True
    then show ?thesis by (simp add: representable_def)
  next
    case False
    have p: "(2::rat) powi (52 - int s - 52) = 1 / 2 ^ s"
      by (simp add: power_int_def field_simps)
    have a: "\<bar>rat_of_int n / 2 ^ s\<bar> = of_int \<bar>n\<bar> * 2 powi (52 - int s - 52)"
      unfolding p by simp
    have "rat_of_int \<bar>n\<bar> < of_int (2 ^ 53)"
      using assms(1) by (simp only: of_int_less_iff)
    then have "rat_of_int \<bar>n\<bar> < 2 ^ 1024"
      by simp
    moreover have "rat_of_int \<bar>n\<bar> / 2 ^ s \<le> rat_of_int \<bar>n\<bar> / 1"
      by (intro divide_left_mono) simp_all
    ultimately have b: "\<bar>rat_of_int n / 2 ^ s\<bar> < 2 ^ 1024"
      by simp
    have "0 < \<bar>n\<bar>" "- 1022 \<le> 52 - int s"
      using False assms(2) by simp_all
    with a b assms(1) show ?thesis
      unfolding representable_def by blast
  qed
  then show ?thesis by (rule rd_fix)
qed

lemma round_double_95_256: "round_double (24321 / 256) = Flt (24321 / 256)"
  using round_double_dyadic [of 24321 8] by simp

section \<open>Range of the points and the risk level\<close>

text \<open>
  Claim C1. On every window that is not empty \<open>compute_risk\<close> returns an assessment whose
  \<open>risk_points\<close> is an integer between 0 and 6, and whose \<open>risk_level\<close> is LOW exactly
  when the points are at most 2, MEDIUM exactly when they are 3 or 4, and HIGH exactly
  when they are at least 5: the three levels partition the range with no gap and no
  overlap.
\<close>

theorem risk_points_range_and_level:
  assumes "rs \<noteq> []"
  shows "\<exists>a. compute_risk impl rs = Inr (Some a) \<and>
           0 \<le> risk_points a \<and> risk_points a \<le> 6 \<and>
           (risk_level a = ''LOW'') = (risk_points a \<le> 2) \<and>
           (risk_level a = ''MEDIUM'') = (3 \<le> risk_points a \<and> risk_points a \<le> 4) \<and>
           (risk_level a = ''HIGH'') = (5 \<le> risk_points a)"
proof -
  define n where "n = temperature_band (window_mean impl (map temperature_c rs)) +
    vibration_band (window_mean impl (map vibration_rms rs)) +
    pressure_band (window_mean impl (map pressure_psi rs))"
  have n: "0 \<le> n" "n \<le> 6"
    using band_bounds(1) [of "window_mean impl (map temperature_c rs)"]
      band_bounds(2) [of "window_mean impl (map vibration_rms rs)"]
      band_bounds(3) [of "window_mean impl (map pressure_psi rs)"]
    by (simp_all add: n_def)
  obtain a where a: "compute_risk impl rs = Inr (Some a)" "risk_points a = n"
    "risk_level a = level_of_points n"
    using compute_risk_nonempty [OF assms, of impl] unfolding n_def by force
  have "(level_of_points n = ''LOW'') = (n \<le> 2)"
    "(level_of_points n = ''MEDIUM'') = (3 \<le> n \<and> n \<le> 4)"
    "(level_of_points n = ''HIGH'') = (5 \<le> n)"
    by (auto simp add: level_of_points_def)
  with a n show ?thesis by simp
qed

text \<open>The first scenario of the specification: one point, level LOW.\<close>

theorem risk_points_range_and_level_witness:
  "scenario_low \<noteq> [] \<and>
   (\<exists>a. compute_risk Plain scenario_low = Inr (Some a) \<and>
        risk_points a = 1 \<and> risk_level a = ''LOW'' \<and>
        0 \<le> risk_points a \<and> risk_points a \<le> 6 \<and>
        (risk_level a = ''LOW'') = (risk_points a \<le> 2) \<and>
        (risk_level a = ''MEDIUM'') = (3 \<le> risk_points a \<and> risk_points a \<le> 4) \<and>
        (risk_level a = ''HIGH'') = (5 \<le> risk_points a))"
proof -
  have ne: "scenario_low \<noteq> []"
    by (simp add: scenario_low_def)
  show ?thesis
    using risk_points_range_and_level [OF ne, of Plain] ne
    by (simp add: scenario_low_result)
qed

section \<open>The empty window\<close>

text \<open>
  Claim C2. On the empty window \<open>compute_risk\<close> returns \<open>None\<close>: not an exception and
  not an assessment, so in particular not a LOW one. On every window that is not empty
  it returns an assessment.
\<close>

theorem empty_window_no_assessment:
  "compute_risk impl [] = Inr None \<and>
   (rs \<noteq> [] \<longrightarrow> (\<exists>a. compute_risk impl rs = Inr (Some a)))"
proof
  show "compute_risk impl [] = Inr None"
    by (simp add: compute_risk_def)
  show "rs \<noteq> [] \<longrightarrow> (\<exists>a. compute_risk impl rs = Inr (Some a))"
    using compute_risk_nonempty [of rs impl] by blast
qed

theorem empty_window_no_assessment_witness:
  "compute_risk Compensated [] = Inr None \<and>
   [sample 1 90 1 45] \<noteq> [] \<and>
   (\<exists>a. compute_risk Compensated [sample 1 90 1 45] = Inr (Some a))"
  using empty_window_no_assessment [of Compensated "[sample 1 90 1 45]"] by simp

section \<open>The risk score\<close>

text \<open>
  Claim C3. On every window that is not empty the returned \<open>risk_score\<close> is
  \<open>round(risk_points / 6, 2)\<close>, and over the seven possible values 0 to 6 of the points
  this expression yields exactly 0.0, 0.17, 0.33, 0.5, 0.67, 0.83 and 1.0 (each decimal
  standing for the double it denotes).
\<close>

theorem risk_score_rounding:
  "map score_of_points [0, 1, 2, 3, 4, 5, 6] =
     map Inr [Flt 0, float_literal (17 / 100), float_literal (33 / 100), Flt (1 / 2),
              float_literal (67 / 100), float_literal (83 / 100), Flt 1] \<and>
   (rs \<noteq> [] \<longrightarrow>
      (\<exists>a. compute_risk impl rs = Inr (Some a) \<and>
           score_of_points (risk_points a) = Inr (risk_score a) \<and>
           risk_score a \<in> set [Flt 0, float_literal (17 / 100), float_literal (33 / 100),
              Flt (1 / 2), float_literal (67 / 100), float_literal (83 / 100), Flt 1]))"
proof (intro conjI impI)
  show "map score_of_points [0, 1, 2, 3, 4, 5, 6] =
     map Inr [Flt 0, float_literal (17 / 100), float_literal (33 / 100), Flt (1 / 2),
              float_literal (67 / 100), float_literal (83 / 100), Flt 1]"
    by (simp add: score_table)
next
  assume ne: "rs \<noteq> []"
  define n where "n = temperature_band (window_mean impl (map temperature_c rs)) +
    vibration_band (window_mean impl (map vibration_rms rs)) +
    pressure_band (window_mean impl (map pressure_psi rs))"
  have n: "0 \<le> n" "n \<le> 6"
    using band_bounds(1) [of "window_mean impl (map temperature_c rs)"]
      band_bounds(2) [of "window_mean impl (map vibration_rms rs)"]
      band_bounds(3) [of "window_mean impl (map pressure_psi rs)"]
    by (simp_all add: n_def)
  obtain a quot where a: "compute_risk impl rs = Inr (Some a)" "risk_points a = n"
    and q: "int_truediv n 6 = Inr quot" "py_round quot 2 = Inr (risk_score a)"
    using compute_risk_nonempty [OF ne, of impl] unfolding n_def by force
  have s: "score_of_points n = Inr (risk_score a)"
    using q by (simp add: score_of_points_def ebind_Inr)
  from n have "n = 0 \<or> n = 1 \<or> n = 2 \<or> n = 3 \<or> n = 4 \<or> n = 5 \<or> n = 6"
    by arith
  with s have "risk_score a \<in> set [Flt 0, float_literal (17 / 100), float_literal (33 / 100),
              Flt (1 / 2), float_literal (67 / 100), float_literal (83 / 100), Flt 1]"
    by (auto simp add: score_table)
  with a s show "\<exists>a. compute_risk impl rs = Inr (Some a) \<and>
           score_of_points (risk_points a) = Inr (risk_score a) \<and>
           risk_score a \<in> set [Flt 0, float_literal (17 / 100), float_literal (33 / 100),
              Flt (1 / 2), float_literal (67 / 100), float_literal (83 / 100), Flt 1]"
    by auto
qed

text \<open>The two scenarios of the specification: one point gives 0.17, six points give 1.0.\<close>

theorem risk_score_rounding_witness:
  "scenario_low \<noteq> [] \<and>
   (\<exists>a. compute_risk Plain scenario_low = Inr (Some a) \<and> risk_points a = 1 \<and>
        score_of_points 1 = Inr (risk_score a) \<and> risk_score a = float_literal (17 / 100)) \<and>
   scenario_high \<noteq> [] \<and>
   (\<exists>a. compute_risk Plain scenario_high = Inr (Some a) \<and> risk_points a = 6 \<and>
        score_of_points 6 = Inr (risk_score a) \<and> risk_score a = Flt 1)"
proof -
  have ne: "scenario_low \<noteq> []" "scenario_high \<noteq> []"
    by (simp_all add: scenario_low_def scenario_high_def)
  show ?thesis
    using risk_score_rounding [of scenario_low Plain] risk_score_rounding [of scenario_high Plain] ne
    by (simp add: scenario_low_result scenario_high_result)
qed

section \<open>Totality\<close>

text \<open>
  Claim C9. \<open>compute_risk\<close> raises no exception on any window, of any length and with any
  float values (infinities and NaN included): it always returns, either \<open>None\<close> or an
  assessment. The divisions by the window length are reached only with a length that is
  not zero, and rounding to two decimals never leaves the range of the doubles.
\<close>

theorem compute_risk_total: "\<exists>r. compute_risk impl rs = Inr r"
proof (cases "rs = []")
  case True
  then show ?thesis by (simp add: compute_risk_def)
next
  case False
  then show ?thesis
    using compute_risk_nonempty [of rs impl] by blast
qed

section \<open>Temperature bands\<close>

text \<open>
  Claim C4. The temperature thresholds are strict comparisons against the mean of the
  window: a mean above 95 adds 2 points, a mean above 85 and at most 95 adds 1 point,
  anything else adds none. A mean of exactly 95.0 therefore adds 1 point (not 2) and a
  mean of exactly 85.0 adds none. The temperature contribution \<open>c\<close> is what remains of
  \<open>risk_points\<close> beside the vibration and the pressure bands.
\<close>

theorem temperature_band_thresholds:
  assumes "rs \<noteq> []"
  shows "let t = window_mean impl (map temperature_c rs);
             v = window_mean impl (map vibration_rms rs);
             p = window_mean impl (map pressure_psi rs)
         in \<exists>a c. compute_risk impl rs = Inr (Some a) \<and>
              risk_points a = c + vibration_band v + pressure_band p \<and>
              c = (case t of Flt x \<Rightarrow> if 95 < x then 2 else if 85 < x then 1 else 0
                   | PosInf \<Rightarrow> 2 | NegInf \<Rightarrow> 0 | NaN \<Rightarrow> 0) \<and>
              (t = Flt 95 \<longrightarrow> c = 1) \<and> (t = Flt 85 \<longrightarrow> c = 0)"
proof -
  define t where "t = window_mean impl (map temperature_c rs)"
  define v where "v = window_mean impl (map vibration_rms rs)"
  define p where "p = window_mean impl (map pressure_psi rs)"
  obtain a where a: "compute_risk impl rs = Inr (Some a)"
    "risk_points a = temperature_band t + vibration_band v + pressure_band p"
    using compute_risk_nonempty [OF assms, of impl] unfolding t_def v_def p_def by force
  have c: "temperature_band t =
      (case t of Flt x \<Rightarrow> if 95 < x then 2 else if 85 < x then 1 else 0
       | PosInf \<Rightarrow> 2 | NegInf \<Rightarrow> 0 | NaN \<Rightarrow> 0)"
    by (cases t) (simp_all add: temperature_band_def)
  have "t = Flt 95 \<longrightarrow> temperature_band t = 1" "t = Flt 85 \<longrightarrow> temperature_band t = 0"
    by (simp_all add: temperature_band_def)
  with a c show ?thesis
    unfolding Let_def t_def [symmetric] v_def [symmetric] p_def [symmetric] by blast
qed

text \<open>Means of exactly 95 and exactly 85, and a mean of 96.\<close>

theorem temperature_band_thresholds_witness:
  "[sample 1 94 1 45, sample 2 96 1 45] \<noteq> [] \<and>
   window_mean Plain (map temperature_c [sample 1 94 1 45, sample 2 96 1 45]) = Flt 95 \<and>
   (\<exists>a. compute_risk Plain [sample 1 94 1 45, sample 2 96 1 45] = Inr (Some a) \<and>
        risk_points a = 1) \<and>
   [sample 1 80 1 45, sample 2 90 1 45] \<noteq> [] \<and>
   window_mean Plain (map temperature_c [sample 1 80 1 45, sample 2 90 1 45]) = Flt 85 \<and>
   (\<exists>a. compute_risk Plain [sample 1 80 1 45, sample 2 90 1 45] = Inr (Some a) \<and>
        risk_points a = 0) \<and>
   [sample 1 96 1 45] \<noteq> [] \<and>
   (\<exists>a. compute_risk Plain [sample 1 96 1 45] = Inr (Some a) \<and> risk_points a = 2)"
  using temperature_band_thresholds [of "[sample 1 94 1 45, sample 2 96 1 45]" Plain]
    temperature_band_thresholds [of "[sample 1 80 1 45, sample 2 90 1 45]" Plain]
    temperature_band_thresholds [of "[sample 1 96 1 45]" Plain]
  by (simp add: sample_def float_eval band_defs)

section \<open>Pressure bands\<close>

text \<open>
  Claim C5. The pressure band looks at both ends and is not cumulative: the pressure
  contribution \<open>c\<close> to \<open>risk_points\<close> is exactly 2 when the mean is below 30 or above 60,
  exactly 1 when it is below 35 or above 55 without being in the 2-point band, and 0
  otherwise; for a finite mean it is 0 exactly when the mean lies in [35, 55].
\<close>

theorem pressure_band_thresholds:
  assumes "rs \<noteq> []"
  shows "let t = window_mean impl (map temperature_c rs);
             v = window_mean impl (map vibration_rms rs);
             p = window_mean impl (map pressure_psi rs)
         in \<exists>a c. compute_risk impl rs = Inr (Some a) \<and>
              risk_points a = temperature_band t + vibration_band v + c \<and>
              c = (case p of
                     Flt x \<Rightarrow> if x < 30 \<or> 60 < x then 2
                              else if x < 35 \<or> 55 < x then 1 else 0
                   | PosInf \<Rightarrow> 2 | NegInf \<Rightarrow> 2 | NaN \<Rightarrow> 0) \<and>
              (case p of Flt x \<Rightarrow> (c = 0) = (35 \<le> x \<and> x \<le> 55) | _ \<Rightarrow> True)"
proof -
  define t where "t = window_mean impl (map temperature_c rs)"
  define v where "v = window_mean impl (map vibration_rms rs)"
  define p where "p = window_mean impl (map pressure_psi rs)"
  obtain a where a: "compute_risk impl rs = Inr (Some a)"
    "risk_points a = temperature_band t + vibration_band v + pressure_band p"
    using compute_risk_nonempty [OF assms, of impl] unfolding t_def v_def p_def by force
  have c: "pressure_band p =
      (case p of
         Flt x \<Rightarrow> if x < 30 \<or> 60 < x then 2 else if x < 35 \<or> 55 < x then 1 else 0
       | PosInf \<Rightarrow> 2 | NegInf \<Rightarrow> 2 | NaN \<Rightarrow> 0)"
    by (cases p) (simp_all add: pressure_band_def)
  have "case p of Flt x \<Rightarrow> (pressure_band p = 0) = (35 \<le> x \<and> x \<le> 55) | _ \<Rightarrow> True"
    by (cases p) (auto simp add: pressure_band_def)
  with a c show ?thesis
    unfolding Let_def t_def [symmetric] v_def [symmetric] p_def [symmetric] by blast
qed

text \<open>Means of exactly 30 (one point), 61 (two points) and 55 (none).\<close>

theorem pressure_band_thresholds_witness:
  "[sample 1 90 1 29, sample 2 90 1 31] \<noteq> [] \<and>
   window_mean Plain (map pressure_psi [sample 1 90 1 29, sample 2 90 1 31]) = Flt 30 \<and>
   (\<exists>a. compute_risk Plain [sample 1 90 1 29, sample 2 90 1 31] = Inr (Some a) \<and>
        risk_points a = 1 + 1) \<and>
   [sample 1 90 1 61] \<noteq> [] \<and>
   (\<exists>a. compute_risk Plain [sample 1 90 1 61] = Inr (Some a) \<and> risk_points a = 1 + 2) \<and>
   [sample 1 90 1 55] \<noteq> [] \<and>
   (\<exists>a. compute_risk Plain [sample 1 90 1 55] = Inr (Some a) \<and> risk_points a = 1 + 0)"
  using pressure_band_thresholds [of "[sample 1 90 1 29, sample 2 90 1 31]" Plain]
    pressure_band_thresholds [of "[sample 1 90 1 61]" Plain]
    pressure_band_thresholds [of "[sample 1 90 1 55]" Plain]
  by (simp add: sample_def float_eval band_defs)

section \<open>Thresholds and reported averages\<close>

text \<open>
  Claim C6. The comparisons that determine \<open>risk_points\<close> are made on the unrounded
  means of the three metrics, and the averages reported in the assessment are those
  means rounded to two decimals; the rounded averages do not enter the points.
\<close>

theorem thresholds_use_unrounded_means:
  assumes "rs \<noteq> []"
  shows "let t = window_mean impl (map temperature_c rs);
             v = window_mean impl (map vibration_rms rs);
             p = window_mean impl (map pressure_psi rs)
         in \<exists>a. compute_risk impl rs = Inr (Some a) \<and>
              risk_points a = temperature_band t + vibration_band v + pressure_band p \<and>
              py_round t 2 = Inr (avg_temperature_c a) \<and>
              py_round v 2 = Inr (avg_vibration_rms a) \<and>
              py_round p 2 = Inr (avg_pressure_psi a)"
  using compute_risk_nonempty [OF assms, of impl] unfolding Let_def by force

text \<open>
  A mean of 95.00390625 is above the threshold 95 and gives 2 points, while the reported
  average is 95.0; the bands of the reported averages would give 1 point.
\<close>

theorem thresholds_use_unrounded_means_witness:
  "[sample 1 (24321 / 256) 1 45] \<noteq> [] \<and>
   window_mean Plain (map temperature_c [sample 1 (24321 / 256) 1 45]) = Flt (24321 / 256) \<and>
   (\<exists>a. compute_risk Plain [sample 1 (24321 / 256) 1 45] = Inr (Some a) \<and>
        risk_points a = 2 \<and> avg_temperature_c a = Flt 95 \<and>
        temperature_band (avg_temperature_c a) + vibration_band (avg_vibration_rms a) +
          pressure_band (avg_pressure_psi a) = 1)"
proof -
  have r: "py_round (Flt (24321 / 256)) 2 = Inr (Flt 95)"
    by (rule py_round_eval [of _ _ 9500]) (simp_all add: float_eval)
  have m: "window_mean Plain (map temperature_c [sample 1 (24321 / 256) 1 45]) = Flt (24321 / 256)"
    "window_mean Plain (map vibration_rms [sample 1 (24321 / 256) 1 45]) = Flt 1"
    "window_mean Plain (map pressure_psi [sample 1 (24321 / 256) 1 45]) = Flt 45"
    by (simp_all add: sample_def float_eval round_double_95_256)
  obtain a where a: "compute_risk Plain [sample 1 (24321 / 256) 1 45] = Inr (Some a)"
    "risk_points a = temperature_band (Flt (24321 / 256)) + vibration_band (Flt 1) +
       pressure_band (Flt 45)"
    "py_round (Flt (24321 / 256)) 2 = Inr (avg_temperature_c a)"
    "py_round (Flt 1) 2 = Inr (avg_vibration_rms a)"
    "py_round (Flt 45) 2 = Inr (avg_pressure_psi a)"
    using thresholds_use_unrounded_means [of "[sample 1 (24321 / 256) 1 45]" Plain]
    unfolding Let_def m by blast
  have "avg_temperature_c a = Flt 95" "avg_vibration_rms a = Flt 1"
    "avg_pressure_psi a = Flt 45"
    using a(3-5) by (simp_all add: r float_eval)
  then have "risk_points a = 2 \<and> avg_temperature_c a = Flt 95 \<and>
      temperature_band (avg_temperature_c a) + vibration_band (avg_vibration_rms a) +
        pressure_band (avg_pressure_psi a) = 1"
    using a(2) by (simp add: band_defs)
  with a(1) m(1) show ?thesis by blast
qed

section \<open>The window that was used\<close>

text \<open>
  Claim C8. \<open>window_used\<close> is the number of readings given to the evaluator, not the
  window that was requested: the assessment of a window of \<open>n\<close> readings has
  \<open>window_used = n\<close>, and the endpoint, asked for \<open>limit\<close> readings of an asset, returns
  as many readings as the asset has, up to \<open>limit\<close>, and reports that number. Asking for 5
  readings of an asset that has 2 gives 2 readings and \<open>window_used = 2\<close>.
\<close>

theorem window_used_is_count:
  "(rs \<noteq> [] \<longrightarrow>
      (\<exists>a. compute_risk impl rs = Inr (Some a) \<and> window_used a = length rs)) \<and>
   (aid \<noteq> [] \<and> 1 \<le> limit \<and> limit \<le> 50 \<longrightarrow>
      (\<exists>resp. get_latest_telemetry impl (Table tbl) aid limit = Inr resp \<and>
         length (readings_out resp) =
           min (nat limit) (length (filter (\<lambda>r. asset_id r = aid) tbl)) \<and>
         window_used_out resp = length (readings_out resp) \<and>
         count_out resp = length (readings_out resp) \<and>
         (case risk_out resp of
            None \<Rightarrow> readings_out resp = []
          | Some a \<Rightarrow> window_used a = length (readings_out resp))))"
proof (intro conjI impI)
  assume "rs \<noteq> []"
  then show "\<exists>a. compute_risk impl rs = Inr (Some a) \<and> window_used a = length rs"
    using compute_risk_nonempty [of rs impl] by force
next
  assume q: "aid \<noteq> [] \<and> 1 \<le> limit \<and> limit \<le> 50"
  define readings where "readings = fetch_rows tbl aid (nat limit)"
  have len: "length readings = min (nat limit) (length (filter (\<lambda>r. asset_id r = aid) tbl))"
    by (simp add: readings_def fetch_rows_def)
  have "\<exists>risk. compute_risk impl readings = Inr risk \<and>
      (case risk of None \<Rightarrow> readings = [] | Some a \<Rightarrow> window_used a = length readings)"
  proof (cases "readings = []")
    case True
    then show ?thesis by (simp add: compute_risk_def)
  next
    case False
    then show ?thesis
      using compute_risk_nonempty [of readings impl] by force
  qed
  then obtain risk where risk: "compute_risk impl readings = Inr risk"
    "case risk of None \<Rightarrow> readings = [] | Some a \<Rightarrow> window_used a = length readings"
    by blast
  have "get_latest_telemetry impl (Table tbl) aid limit =
      Inr \<lparr>asset_id_out = aid, window_requested = limit, window_used_out = length readings,
           count_out = length readings, readings_out = readings, risk_out = risk\<rparr>"
    using q risk(1) by (simp add: get_latest_telemetry_def readings_def [symmetric] Let_def)
  with len risk(2) show "\<exists>resp. get_latest_telemetry impl (Table tbl) aid limit = Inr resp \<and>
         length (readings_out resp) =
           min (nat limit) (length (filter (\<lambda>r. asset_id r = aid) tbl)) \<and>
         window_used_out resp = length (readings_out resp) \<and>
         count_out resp = length (readings_out resp) \<and>
         (case risk_out resp of
            None \<Rightarrow> readings_out resp = []
          | Some a \<Rightarrow> window_used a = length (readings_out resp))"
    by (cases risk) simp_all
qed

text \<open>The limit 5 on a table that holds two rows of the asset.\<close>

theorem window_used_is_count_witness:
  "[sample 3 92 1 45, sample 1 90 1 45] \<noteq> [] \<and>
   (\<exists>a. compute_risk Plain [sample 3 92 1 45, sample 1 90 1 45] = Inr (Some a) \<and>
        window_used a = 2) \<and>
   ''aircraft-C130-017'' \<noteq> [] \<and> (1::int) \<le> 5 \<and> (5::int) \<le> 50 \<and>
   length (filter (\<lambda>r. asset_id r = ''aircraft-C130-017'') stored_rows) = 2 \<and>
   (\<exists>resp a. get_latest_telemetry Plain (Table stored_rows) ''aircraft-C130-017'' 5 = Inr resp \<and>
        window_requested resp = 5 \<and> length (readings_out resp) = 2 \<and>
        window_used_out resp = 2 \<and> count_out resp = 2 \<and>
        risk_out resp = Some a \<and> window_used a = 2)"
proof -
  have n: "length (filter (\<lambda>r. asset_id r = ''aircraft-C130-017'') stored_rows) = 2"
    by (simp add: stored_rows_def sample_def)
  obtain resp where resp:
    "get_latest_telemetry Plain (Table stored_rows) ''aircraft-C130-017'' 5 = Inr resp"
    "length (readings_out resp) = 2" "window_used_out resp = 2" "count_out resp = 2"
    "case risk_out resp of None \<Rightarrow> readings_out resp = []
     | Some a \<Rightarrow> window_used a = length (readings_out resp)"
    using window_used_is_count [of "[]" Plain "''aircraft-C130-017''" 5 stored_rows] n
    by auto
  have w: "window_requested resp = 5"
    using resp(1) by (auto simp add: get_latest_telemetry_def Let_def split: sum.splits)
  obtain a where "risk_out resp = Some a" "window_used a = 2"
    using resp(2,5) by (cases "risk_out resp") auto
  with resp w n show ?thesis
    using window_used_is_count [of "[sample 3 92 1 45, sample 1 90 1 45]" Plain "[]" 0 "[]"]
    by auto
qed

section \<open>The order of the readings\<close>

lemma rhe_tie:
  assumes "x = of_int n + 1 / 2"
  shows "round_half_even x = (if even n then n else n + 1)"
proof -
  have "\<lfloor>x\<rfloor> = n"
    unfolding assms by (rule floor_unique) simp_all
  then show ?thesis
    by (simp add: round_half_even_def assms)
qed

lemma round_double_eval_mantissa:
  assumes "0 < q" "2 powi e \<le> q" "q < 2 powi (e + 1)" "- 1022 \<le> e"
    and "round_half_even (q / 2 powi (e - 52)) = k"
    and "rat_of_int k * 2 powi (e - 52) < 2 ^ 1024"
  shows "round_double q = Flt (of_int k * 2 powi (e - 52))"
proof -
  have "ilog2 q = e"
    using assms(1-3) by (rule ilog2_unique)
  then have u: "ulp_of q = 2 powi (e - 52)"
    using assms(4) by (simp add: ulp_of_def)
  show ?thesis
    using rd_pos [OF assms(1)] assms(5,6) u by simp
qed

lemma literal_3_29: "float_literal (329 / 100) = Flt (3704210693512233 / 1125899906842624)"
  unfolding float_literal_def
  using round_double_eval [of "329 / 100" 1 7408421387024466] by simp

lemma literal_1_03: "float_literal (103 / 100) = Flt (4638707616191611 / 4503599627370496)"
  unfolding float_literal_def
  using round_double_eval [of "103 / 100" 0 4638707616191611] by simp

lemma literal_3_18: "float_literal (318 / 100) = Flt (7160723407519089 / 2251799813685248)"
  unfolding float_literal_def
  using round_double_eval [of "318 / 100" 1 7160723407519089] by simp

lemma round_double_idem: "round_double q = Flt r \<Longrightarrow> round_double r = Flt r"
  by (rule rd_fix) (rule rd_representable)

lemma rd_3_29: "round_double (3704210693512233 / 1125899906842624) = Flt (3704210693512233 / 1125899906842624)"
  using round_double_idem [OF literal_3_29 [unfolded float_literal_def]] .

lemma add_329_103:
  "round_double (3704210693512233 / 1125899906842624 + 4638707616191611 / 4503599627370496)
     = Flt (607985949695017 / 140737488355328)"
  using round_double_eval [of "3704210693512233 / 1125899906842624 + 4638707616191611 / 4503599627370496" 2 4863887597560136]
  by simp

lemma add_329_103_318:
  "round_double (607985949695017 / 140737488355328 + 7160723407519089 / 2251799813685248)
     = Flt (15 / 2)"
proof -
  have "round_half_even ((607985949695017 / 140737488355328 + 7160723407519089 / 2251799813685248) / 2 powi (2 - 52)) = 8444249301319680"
    using rhe_tie [of "(607985949695017 / 140737488355328 + 7160723407519089 / 2251799813685248) / 2 powi (2 - 52)" 8444249301319680]
    by simp
  then show ?thesis
    using round_double_eval_mantissa [of "607985949695017 / 140737488355328 + 7160723407519089 / 2251799813685248" 2 8444249301319680]
    by simp
qed

lemma add_329_318:
  "round_double (3704210693512233 / 1125899906842624 + 7160723407519089 / 2251799813685248)
     = Flt (3642286198635889 / 562949953421312)"
proof -
  have "round_half_even ((3704210693512233 / 1125899906842624 + 7160723407519089 / 2251799813685248) / 2 powi (2 - 52)) = 7284572397271778"
    using rhe_tie [of "(3704210693512233 / 1125899906842624 + 7160723407519089 / 2251799813685248) / 2 powi (2 - 52)" 7284572397271777]
    by simp
  then show ?thesis
    using round_double_eval_mantissa [of "3704210693512233 / 1125899906842624 + 7160723407519089 / 2251799813685248" 2 7284572397271778]
    by simp
qed

lemma add_329_318_103:
  "round_double (3642286198635889 / 562949953421312 + 4638707616191611 / 4503599627370496)
     = Flt (8444249301319681 / 1125899906842624)"
  using round_double_eval [of "3642286198635889 / 562949953421312 + 4638707616191611 / 4503599627370496" 2 8444249301319681]
  by simp

lemma div_a: "round_double (15 / 2 / 3) = Flt (5 / 2)"
  using round_double_dyadic [of 5 1] by simp

lemma div_b: "round_double (8444249301319681 / 1125899906842624 / 3) = Flt (5629499534213121 / 2251799813685248)"
  using round_double_eval [of "8444249301319681 / 1125899906842624 / 3" 1 5629499534213121]
  by simp

lemma jitter_a_mean:
  "window_mean Plain (map vibration_rms jitter_a) = Flt (5 / 2)"
  unfolding jitter_a_def literal_3_29 literal_1_03 literal_3_18
  using rd_3_29 add_329_103 add_329_103_318 div_a
  by (simp add: sample_def float_eval)

lemma jitter_b_mean:
  "window_mean Plain (map vibration_rms jitter_b) = Flt (5629499534213121 / 2251799813685248)"
  unfolding jitter_b_def literal_3_29 literal_1_03 literal_3_18
  using rd_3_29 add_329_318 add_329_318_103 div_b
  by (simp add: sample_def float_eval)

lemma round_double_overflow:
  assumes "2 ^ 1024 \<le> q"
  shows "round_double q = PosInf"
proof -
  have qpos: "0 < q"
    using assms by (rule less_le_trans [rotated]) simp
  have "(2::rat) powi 1024 \<le> q"
    using assms by simp
  also have "q < 2 powi (ilog2 q + 1)"
    using ilog2_bounds [OF qpos] by simp
  finally have e: "1024 \<le> ilog2 q"
    using powi2_less_cancel [of 1024 "ilog2 q + 1"] by simp
  then have u: "ulp_of q = 2 powi (ilog2 q - 52)"
    by (simp add: ulp_of_def)
  have "2 ^ 52 * ulp_of q = 2 powi 52 * 2 powi (ilog2 q - 52)"
    by (simp add: u)
  also have "\<dots> = 2 powi (52 + (ilog2 q - 52))"
    by (rule powi2_add [symmetric])
  also have "\<dots> = 2 powi (ilog2 q)"
    by simp
  finally have binade: "2 ^ 52 * ulp_of q = 2 powi (ilog2 q)" .
  have "2 powi (ilog2 q) \<le> q"
    using ilog2_bounds [OF qpos] by simp
  then have "2 ^ 52 * ulp_of q \<le> q"
    by (simp only: binade)
  then have "rat_of_int (2 ^ 52) \<le> q / ulp_of q"
    using ulp_of_pos [of q] by (simp add: le_divide_eq)
  then have "2 ^ 52 \<le> round_half_even (q / ulp_of q)"
    by (rule rhe_ge)
  then have "rat_of_int (2 ^ 52) \<le> of_int (round_half_even (q / ulp_of q))"
    by (simp only: of_int_le_iff)
  then have "2 ^ 52 * ulp_of q \<le> of_int (round_half_even (q / ulp_of q)) * ulp_of q"
    using ulp_of_pos [of q] by simp
  moreover have "(2::rat) powi 1024 \<le> 2 powi (ilog2 q)"
    using e by (rule powi2_mono)
  ultimately have "2 ^ 1024 \<le> of_int (round_half_even (q / ulp_of q)) * ulp_of q"
    unfolding binade by simp
  then show ?thesis
    using rd_pos [OF qpos] by simp
qed

lemma huge_pos: "0 < huge"
  by (simp add: huge_def)

lemma round_double_huge: "round_double huge = Flt huge"
proof -
  have "huge = rat_of_int (2 ^ 52) * 2 powi (1023 - 52)"
    by (simp add: huge_def)
  moreover have "huge < 2 ^ 1024"
    by (simp add: huge_def)
  ultimately show ?thesis
    by (intro rd_exact [of "2 ^ 52" 1023]) simp_all
qed

lemma round_double_two_huge: "round_double (2 * huge) = PosInf"
  by (rule round_double_overflow) (simp add: huge_def)

lemmas huge_eval = huge_pos round_double_huge round_double_two_huge

lemma swing_a_mean:
  "window_mean impl (map temperature_c swing_a) = PosInf"
  "window_mean impl (map vibration_rms swing_a) = PosInf"
  "window_mean impl (map pressure_psi swing_a) = Flt 45"
  by (cases impl; simp add: swing_a_def sample_def float_eval huge_eval)+

lemma swing_b_mean:
  "window_mean impl (map temperature_c swing_b) = Flt 0"
  "window_mean impl (map vibration_rms swing_b) = Flt 0"
  "window_mean impl (map pressure_psi swing_b) = Flt 45"
  by (cases impl; simp add: swing_b_def sample_def float_eval huge_eval)+

lemma jitter_other_means:
  "window_mean Plain (map temperature_c jitter_a) = Flt 96"
  "window_mean Plain (map pressure_psi jitter_a) = Flt 45"
  "window_mean Plain (map temperature_c jitter_b) = Flt 96"
  "window_mean Plain (map pressure_psi jitter_b) = Flt 45"
  by (simp_all add: jitter_a_def jitter_b_def sample_def float_eval)

lemma compute_risk_points:
  fixes impl :: sum_impl and rs :: "reading list"
  assumes "rs \<noteq> []"
    and "window_mean impl (map temperature_c rs) = t"
    and "window_mean impl (map vibration_rms rs) = v"
    and "window_mean impl (map pressure_psi rs) = p"
  shows "\<exists>a. compute_risk impl rs = Inr (Some a) \<and>
           risk_points a = temperature_band t + vibration_band v + pressure_band p \<and>
           risk_level a =
             level_of_points (temperature_band t + vibration_band v + pressure_band p)"
  using compute_risk_nonempty [OF assms(1), of impl] unfolding assms(2-4) by force

lemma jitter_levels:
  "\<exists>a b. compute_risk Plain jitter_a = Inr (Some a) \<and> risk_points a = 2 \<and>
          risk_level a = ''LOW'' \<and>
          compute_risk Plain jitter_b = Inr (Some b) \<and> risk_points b = 3 \<and>
          risk_level b = ''MEDIUM''"
proof -
  have ne: "jitter_a \<noteq> []" "jitter_b \<noteq> []"
    by (simp_all add: jitter_a_def jitter_b_def)
  show ?thesis
    using compute_risk_points [OF ne(1) jitter_other_means(1) jitter_a_mean jitter_other_means(2)]
      compute_risk_points [OF ne(2) jitter_other_means(3) jitter_b_mean jitter_other_means(4)]
    by (auto simp add: band_defs)
qed

lemma swing_levels:
  "\<exists>a b. compute_risk impl swing_a = Inr (Some a) \<and> risk_points a = 4 \<and>
          risk_level a = ''MEDIUM'' \<and>
          compute_risk impl swing_b = Inr (Some b) \<and> risk_points b = 0 \<and>
          risk_level b = ''LOW''"
proof -
  have ne: "swing_a \<noteq> []" "swing_b \<noteq> []"
    by (simp_all add: swing_a_def swing_b_def)
  show ?thesis
    using compute_risk_points [OF ne(1) swing_a_mean, of impl]
      compute_risk_points [OF ne(2) swing_b_mean, of impl]
    by (auto simp add: band_defs)
qed

text \<open>
  Claim C7, as stated, fails: float addition is not associative, so the sum of a metric,
  and with it the mean, the points and the reported average, can depend on the order of
  the readings. With plain left-to-right summation the vibration values 3.29, 1.03, 3.18
  have the mean 2.5 in this order (no vibration point, level LOW) and the mean
  2.5000000000000004 in the order 3.29, 3.18, 1.03 (one point, level MEDIUM). With
  either summation the values \<open>2^1023, 2^1023, -2^1023, -2^1023\<close> overflow to an
  infinite sum, while the order \<open>2^1023, -2^1023, 2^1023, -2^1023\<close> sums to zero.
\<close>

theorem order_sensitivity_counterexample:
  "mset jitter_a = mset jitter_b \<and>
   compute_risk Plain jitter_a \<noteq> compute_risk Plain jitter_b \<and>
   mset swing_a = mset swing_b \<and>
   compute_risk Plain swing_a \<noteq> compute_risk Plain swing_b \<and>
   compute_risk Compensated swing_a \<noteq> compute_risk Compensated swing_b"
proof -
  have "mset jitter_a = mset jitter_b"
    by (simp add: jitter_a_def jitter_b_def)
  moreover have "mset swing_a = mset swing_b"
    by (simp add: swing_a_def swing_b_def)
  moreover have "compute_risk Plain jitter_a \<noteq> compute_risk Plain jitter_b"
    using jitter_levels by auto
  moreover have "compute_risk impl swing_a \<noteq> compute_risk impl swing_b" for impl
    using swing_levels [of impl] by auto
  ultimately show ?thesis by blast
qed

subsection \<open>Windows that are summed without rounding\<close>

lemma grid_Ints: "grid s q \<longleftrightarrow> q * 2 ^ s \<in> \<int>"
  unfolding grid_def by (metis Ints_of_int Ints_cases floor_of_int)

lemma grid_zero: "grid s 0"
  by (simp add: grid_Ints)

lemma grid_add: "grid s a \<Longrightarrow> grid s b \<Longrightarrow> grid s (a + b)"
  by (simp add: grid_Ints distrib_right)

lemma grid_minus: "grid s a \<Longrightarrow> grid s (- a)"
  by (simp add: grid_Ints)

lemma exact_round:
  assumes "s \<le> 1074" "grid s q" "\<bar>q\<bar> * 2 ^ s < 2 ^ 53"
  shows "round_double q = Flt q"
proof -
  define n where "n = \<lfloor>q * 2 ^ s\<rfloor>"
  have n: "rat_of_int n = q * 2 ^ s"
    using assms(2) by (simp add: grid_def n_def)
  then have q: "q = of_int n / 2 ^ s"
    by simp
  have "\<bar>rat_of_int n\<bar> = \<bar>q\<bar> * 2 ^ s"
    unfolding n by (simp add: abs_mult)
  then have "rat_of_int \<bar>n\<bar> < of_int (2 ^ 53)"
    using assms(3) by simp
  then have "\<bar>n\<bar> < 2 ^ 53"
    by (simp only: of_int_less_iff)
  then show ?thesis
    unfolding q using assms(1) by (rule round_double_dyadic)
qed

lemma magnitude_nonneg: "0 \<le> magnitude x"
  by (cases x) simp_all

lemma sum_magnitude_nonneg: "0 \<le> sum_list (map magnitude xs)"
  by (induction xs) (simp_all add: magnitude_nonneg)

lemma scaled_bound:
  fixes x y c :: rat
  assumes "x \<le> y" "y * 2 ^ s < c"
  shows "x * 2 ^ s < c"
proof -
  have "x * 2 ^ s \<le> y * 2 ^ s"
    using assms(1) by (intro mult_right_mono) simp_all
  then show ?thesis
    using assms(2) by (rule le_less_trans)
qed

lemma fadd_exact:
  assumes "s \<le> 1074" "grid s a" "grid s b" "(\<bar>a\<bar> + \<bar>b\<bar>) * 2 ^ s < 2 ^ 53"
  shows "fadd (Flt a) (Flt b) = Flt (a + b)"
proof -
  have "\<bar>a + b\<bar> \<le> \<bar>a\<bar> + \<bar>b\<bar>"
    by simp
  then have "\<bar>a + b\<bar> * 2 ^ s < 2 ^ 53"
    using assms(4) by (rule scaled_bound)
  then show ?thesis
    using exact_round [OF assms(1) grid_add [OF assms(2,3)]] by simp
qed

lemma sum_plain_exact:
  assumes "s \<le> 1074"
  shows "grid s a \<Longrightarrow> list_all (on_grid s) xs \<Longrightarrow>
         (\<bar>a\<bar> + sum_list (map magnitude xs)) * 2 ^ s < 2 ^ 53 \<Longrightarrow>
         sum_plain (Flt a) xs = Flt (a + sum_list (map value_of xs))"
proof (induction xs arbitrary: a)
  case Nil
  then show ?case by simp
next
  case (Cons x xs)
  from Cons.prems(2) obtain q where x: "x = Flt q" and q: "grid s q"
    by (cases x) simp_all
  have rest: "0 \<le> sum_list (map magnitude xs)"
    by (rule sum_magnitude_nonneg)
  have b: "(\<bar>a\<bar> + \<bar>q\<bar> + sum_list (map magnitude xs)) * 2 ^ s < 2 ^ 53"
    using Cons.prems(3) by (simp add: x add.assoc)
  have "\<bar>a\<bar> + \<bar>q\<bar> \<le> \<bar>a\<bar> + \<bar>q\<bar> + sum_list (map magnitude xs)"
    using rest by simp
  then have "(\<bar>a\<bar> + \<bar>q\<bar>) * 2 ^ s < 2 ^ 53"
    using b by (rule scaled_bound)
  then have step: "fadd (Flt a) (Flt q) = Flt (a + q)"
    using assms Cons.prems(1) q by (intro fadd_exact)
  have "\<bar>a + q\<bar> + sum_list (map magnitude xs)
      \<le> \<bar>a\<bar> + \<bar>q\<bar> + sum_list (map magnitude xs)"
    by simp
  then have b': "(\<bar>a + q\<bar> + sum_list (map magnitude xs)) * 2 ^ s < 2 ^ 53"
    using b by (rule scaled_bound)
  have "sum_plain (Flt (a + q)) xs = Flt (a + q + sum_list (map value_of xs))"
    using Cons.prems(2) b' grid_add [OF Cons.prems(1) q] by (intro Cons.IH) simp_all
  moreover have "round_double (a + q) = Flt (a + q)"
    using step by simp
  ultimately show ?case
    by (simp add: x add.assoc)
qed

lemma sum_compensated_exact:
  assumes "s \<le> 1074"
  shows "grid s a \<Longrightarrow> list_all (on_grid s) xs \<Longrightarrow>
         (\<bar>a\<bar> + sum_list (map magnitude xs)) * 2 ^ s < 2 ^ 53 \<Longrightarrow>
         sum_compensated (Flt a) (Flt 0) xs = Flt (a + sum_list (map value_of xs))"
proof (induction xs arbitrary: a)
  case Nil
  then show ?case by simp
next
  case (Cons x xs)
  from Cons.prems(2) obtain q where x: "x = Flt q" and q: "grid s q"
    by (cases x) simp_all
  have rest: "0 \<le> sum_list (map magnitude xs)"
    by (rule sum_magnitude_nonneg)
  have b: "(\<bar>a\<bar> + \<bar>q\<bar> + sum_list (map magnitude xs)) * 2 ^ s < 2 ^ 53"
    using Cons.prems(3) by (simp add: x add.assoc)
  have "\<bar>a\<bar> + \<bar>q\<bar> \<le> \<bar>a\<bar> + \<bar>q\<bar> + sum_list (map magnitude xs)"
    using rest by simp
  then have aq: "(\<bar>a\<bar> + \<bar>q\<bar>) * 2 ^ s < 2 ^ 53"
    using b by (rule scaled_bound)
  have "\<bar>- a\<bar> \<le> \<bar>a\<bar> + \<bar>q\<bar>"
    by simp
  then have small_a: "\<bar>- a\<bar> * 2 ^ s < 2 ^ 53"
    using aq by (rule scaled_bound)
  have "\<bar>- q\<bar> \<le> \<bar>a\<bar> + \<bar>q\<bar>"
    by simp
  then have small_q: "\<bar>- q\<bar> * 2 ^ s < 2 ^ 53"
    using aq by (rule scaled_bound)
  have t: "round_double (a + q) = Flt (a + q)"
    using fadd_exact [OF assms Cons.prems(1) q aq] by simp
  have na: "round_double (- a) = Flt (- a)"
    using assms grid_minus [OF Cons.prems(1)] small_a by (rule exact_round)
  have nq: "round_double (- q) = Flt (- q)"
    using assms grid_minus [OF q] small_q by (rule exact_round)
  have z: "round_double 0 = Flt 0"
    by (simp add: round_double_def)
  have c1: "fadd (Flt 0) (fadd (fsub (Flt a) (Flt (a + q))) (Flt q)) = Flt 0"
    by (simp add: fsub_def nq z)
  have c2: "fadd (Flt 0) (fadd (fsub (Flt q) (Flt (a + q))) (Flt a)) = Flt 0"
    by (simp add: fsub_def na z)
  have "\<bar>a + q\<bar> + sum_list (map magnitude xs)
      \<le> \<bar>a\<bar> + \<bar>q\<bar> + sum_list (map magnitude xs)"
    by simp
  then have b': "(\<bar>a + q\<bar> + sum_list (map magnitude xs)) * 2 ^ s < 2 ^ 53"
    using b by (rule scaled_bound)
  have "sum_compensated (Flt (a + q)) (Flt 0) xs = Flt (a + q + sum_list (map value_of xs))"
    using Cons.prems(2) b' grid_add [OF Cons.prems(1) q] by (intro Cons.IH) simp_all
  moreover have "sum_compensated (Flt a) (Flt 0) (x # xs) =
      sum_compensated (Flt (a + q)) (Flt 0) xs"
    by (simp add: Let_def x t c1 c2)
  ultimately show ?case
    by (simp add: x add.assoc)
qed

lemma py_sum_exact:
  assumes "exactly_summable s xs"
  shows "py_sum impl xs = Flt (sum_list (map value_of xs))"
proof (cases xs)
  case Nil
  then show ?thesis by simp
next
  case (Cons x ys)
  have s: "s \<le> 1074" and g: "list_all (on_grid s) (x # ys)"
    and b: "sum_list (map magnitude (x # ys)) * 2 ^ s < 2 ^ 53"
    using assms by (simp_all add: exactly_summable_def Cons)
  from g obtain q where x: "x = Flt q" and q: "grid s q"
    by (cases x) simp_all
  have b': "(\<bar>q\<bar> + sum_list (map magnitude ys)) * 2 ^ s < 2 ^ 53"
    using b by (simp add: x)
  have "\<bar>q\<bar> \<le> \<bar>q\<bar> + sum_list (map magnitude ys)"
    using sum_magnitude_nonneg [of ys] by simp
  then have "\<bar>q\<bar> * 2 ^ s < 2 ^ 53"
    using b' by (rule scaled_bound)
  then have first: "round_double q = Flt q"
    using s q by (intro exact_round)
  have ys: "list_all (on_grid s) ys"
    using g by simp
  show ?thesis
  proof (cases impl)
    case Plain
    then show ?thesis
      using sum_plain_exact [OF s q ys b'] by (simp add: Cons x first)
  next
    case Compensated
    then show ?thesis
      using sum_compensated_exact [OF s q ys b'] by (simp add: Cons x first)
  qed
qed

lemma sum_list_mset_cong:
  fixes f :: "'a \<Rightarrow> rat"
  assumes "mset xs = mset ys"
  shows "sum_list (map f xs) = sum_list (map f ys)"
proof -
  have "sum_list (map f xs) = sum_mset (mset (map f xs))"
    by (simp only: sum_mset_sum_list)
  also have "mset (map f xs) = mset (map f ys)"
    using assms by simp
  also have "sum_mset (mset (map f ys)) = sum_list (map f ys)"
    by (simp only: sum_mset_sum_list)
  finally show ?thesis .
qed

lemma exactly_summable_mset:
  assumes "mset xs = mset ys"
  shows "exactly_summable s xs = exactly_summable s ys"
proof -
  have "set xs = set ys"
    using assms by (rule mset_eq_setD)
  then have "list_all (on_grid s) xs = list_all (on_grid s) ys"
    by (simp add: list_all_iff)
  moreover have "sum_list (map magnitude xs) = sum_list (map magnitude ys)"
    using assms by (rule sum_list_mset_cong)
  ultimately show ?thesis
    by (simp add: exactly_summable_def)
qed

lemma py_sum_permuted:
  assumes "mset xs = mset ys" "exactly_summable s xs"
  shows "py_sum impl xs = py_sum impl ys"
proof -
  have "exactly_summable s ys"
    using assms exactly_summable_mset by blast
  then have "py_sum impl ys = Flt (sum_list (map value_of ys))"
    by (rule py_sum_exact)
  moreover have "py_sum impl xs = Flt (sum_list (map value_of xs))"
    using assms(2) by (rule py_sum_exact)
  moreover have "sum_list (map value_of xs) = sum_list (map value_of ys)"
    using assms(1) by (rule sum_list_mset_cong)
  ultimately show ?thesis by simp
qed

text \<open>
  Claim C7, amended. Whenever each of the three metric sequences of a window is summed
  without rounding (see \<open>exactly_summable\<close>; integer-valued readings of ordinary size are
  the simplest case), every permutation of the window gets the identical result from
  \<open>compute_risk\<close>, with either summation of the interpreter.
\<close>

theorem order_insensitive_when_exact:
  assumes "mset rs = mset rs'"
    and "exactly_summable s1 (map temperature_c rs)"
    and "exactly_summable s2 (map vibration_rms rs)"
    and "exactly_summable s3 (map pressure_psi rs)"
  shows "compute_risk impl rs = compute_risk impl rs'"
proof -
  have len: "length rs = length rs'"
    using assms(1) by (rule mset_eq_length)
  then have e: "(rs = []) = (rs' = [])"
    by auto
  have m: "mset (map f rs) = mset (map f rs')" for f :: "reading \<Rightarrow> pyfloat"
    using assms(1) by simp
  have "py_sum impl (map temperature_c rs) = py_sum impl (map temperature_c rs')"
    "py_sum impl (map vibration_rms rs) = py_sum impl (map vibration_rms rs')"
    "py_sum impl (map pressure_psi rs) = py_sum impl (map pressure_psi rs')"
    using py_sum_permuted [OF m assms(2)] py_sum_permuted [OF m assms(3)]
      py_sum_permuted [OF m assms(4)] by simp_all
  with len e show ?thesis
    by (simp add: compute_risk_def)
qed

text \<open>The window \<open>quarters\<close> and its reversal.\<close>

theorem order_insensitive_when_exact_witness:
  "mset quarters = mset (rev quarters) \<and> quarters \<noteq> rev quarters \<and>
   exactly_summable 0 (map temperature_c quarters) \<and>
   exactly_summable 2 (map vibration_rms quarters) \<and>
   exactly_summable 1 (map pressure_psi quarters) \<and>
   compute_risk Plain quarters = compute_risk Plain (rev quarters) \<and>
   compute_risk Compensated quarters = compute_risk Compensated (rev quarters)"
proof -
  have m: "mset quarters = mset (rev quarters)"
    by simp
  have d: "quarters \<noteq> rev quarters"
    by (simp add: quarters_def sample_def)
  have s: "exactly_summable 0 (map temperature_c quarters)"
    "exactly_summable 2 (map vibration_rms quarters)"
    "exactly_summable 1 (map pressure_psi quarters)"
    by (simp_all add: exactly_summable_def grid_def quarters_def sample_def)
  show ?thesis
    using order_insensitive_when_exact [OF m s, of Plain]
      order_insensitive_when_exact [OF m s, of Compensated] m d s
    by simp
qed

section \<open>Noninterference of the fields that are not metrics\<close>

text \<open>
  Claim C10. Two windows that hold the same temperature, vibration and pressure values at
  every position, and differ only in id, asset_id or recorded_at, get the same result
  from \<open>compute_risk\<close>: the result depends on the three metric sequences alone (their
  common length is the count).
\<close>

theorem compute_risk_noninterference:
  assumes "map temperature_c rs = map temperature_c rs'"
    and "map vibration_rms rs = map vibration_rms rs'"
    and "map pressure_psi rs = map pressure_psi rs'"
  shows "compute_risk impl rs = compute_risk impl rs'"
proof -
  have len: "length rs = length rs'"
    using assms(1) by (rule map_eq_imp_length_eq)
  then have "(rs = []) = (rs' = [])"
    by auto
  with assms len show ?thesis
    by (simp add: compute_risk_def)
qed

text \<open>
  Two windows with the same metrics and different ids, assets and timestamps.
\<close>

theorem compute_risk_noninterference_witness:
  "map temperature_c [sample 1 90 1 45, sample 2 92 1 45]
     = map temperature_c [(sample 7 90 1 45)\<lparr>asset_id := ''other''\<rparr>, sample 9 92 1 45] \<and>
   map vibration_rms [sample 1 90 1 45, sample 2 92 1 45]
     = map vibration_rms [(sample 7 90 1 45)\<lparr>asset_id := ''other''\<rparr>, sample 9 92 1 45] \<and>
   map pressure_psi [sample 1 90 1 45, sample 2 92 1 45]
     = map pressure_psi [(sample 7 90 1 45)\<lparr>asset_id := ''other''\<rparr>, sample 9 92 1 45] \<and>
   [sample 1 90 1 45, sample 2 92 1 45]
     \<noteq> [(sample 7 90 1 45)\<lparr>asset_id := ''other''\<rparr>, sample 9 92 1 45] \<and>
   compute_risk Plain [sample 1 90 1 45, sample 2 92 1 45]
     = compute_risk Plain [(sample 7 90 1 45)\<lparr>asset_id := ''other''\<rparr>, sample 9 92 1 45]"
proof -
  have m: "map temperature_c [sample 1 90 1 45, sample 2 92 1 45]
     = map temperature_c [(sample 7 90 1 45)\<lparr>asset_id := ''other''\<rparr>, sample 9 92 1 45]"
    "map vibration_rms [sample 1 90 1 45, sample 2 92 1 45]
     = map vibration_rms [(sample 7 90 1 45)\<lparr>asset_id := ''other''\<rparr>, sample 9 92 1 45]"
    "map pressure_psi [sample 1 90 1 45, sample 2 92 1 45]
     = map pressure_psi [(sample 7 90 1 45)\<lparr>asset_id := ''other''\<rparr>, sample 9 92 1 45]"
    by (simp_all add: sample_def)
  have d: "[sample 1 90 1 45, sample 2 92 1 45]
     \<noteq> [(sample 7 90 1 45)\<lparr>asset_id := ''other''\<rparr>, sample 9 92 1 45]"
    by (simp add: sample_def)
  show ?thesis
    using compute_risk_noninterference [OF m, of Plain] m d by simp
qed

end
